theory Spec2Isabelle
  imports Complex_Main "HOL-Library.Word"
begin

section \<open>Canvas raster and application state\<close>

text \<open>
  The painter is one React component (\<^verbatim>\<open>geometric-painter.jsx\<close>). Its canvas is modelled
  by the raster that \<^verbatim>\<open>getImageData(0, 0, width, height)\<close> returns: one RGBA quadruple of
  bytes per pixel, row by row. JavaScript numbers are modelled by \<^typ>\<open>real\<close> where the
  code computes with fractions and by \<^typ>\<open>int\<close> where it has applied \<^verbatim>\<open>Math.floor\<close>.
\<close>

type_synonym rgba = "8 word \<times> 8 word \<times> 8 word \<times> 8 word"

type_synonym rgb = "8 word \<times> 8 word \<times> 8 word"

type_synonym point = "real \<times> real"

record canvas =
  width :: nat
  height :: nat
  pixels :: "rgba list"

definition wellFormed :: "canvas \<Rightarrow> bool" where
  "wellFormed cv \<longleftrightarrow> length (pixels cv) = width cv * height cv"

text \<open>The background \<^verbatim>\<open>#0a0a0a\<close> painted by \<^verbatim>\<open>fillRect\<close> over the whole canvas.\<close>

definition background :: rgba where
  "background = (10, 10, 10, 255)"

definition blank :: "nat \<Rightarrow> nat \<Rightarrow> canvas" where
  "blank w h = \<lparr>width = w, height = h, pixels = replicate (w * h) background\<rparr>"

section \<open>History manager\<close>

text \<open>
  \<^verbatim>\<open>undoHistoryRef.current\<close> is an array of data URLs, oldest first; a snapshot is
  modelled by the raster it encodes. \<^verbatim>\<open>canUndo\<close> is the React state of the same name.
  The image decode in \<^verbatim>\<open>undo\<close> is asynchronous in the browser; the model restores the
  raster at once. The canvas element is taken to be mounted, so the \<^verbatim>\<open>if (!canvas)\<close>
  guard of \<^verbatim>\<open>saveToHistory\<close> never fires.
\<close>

definition maxUndoSteps :: nat where
  "maxUndoSteps = 20"

record history =
  surface :: canvas
  undoHistory :: "canvas list"
  canUndo :: bool

definition saveToHistory :: "'a history_scheme \<Rightarrow> 'a history_scheme" where
  "saveToHistory s =
     (let pushed = undoHistory s @ [surface s];
          limited = (if length pushed > maxUndoSteps then tl pushed else pushed)
      in s\<lparr>undoHistory := limited, canUndo := (length limited > 1)\<rparr>)"

definition undo :: "'a history_scheme \<Rightarrow> 'a history_scheme" where
  "undo s =
     (if length (undoHistory s) \<le> 1 then s
      else let popped = butlast (undoHistory s)
           in s\<lparr>surface := last popped, undoHistory := popped,
                canUndo := (length popped > 1)\<rparr>)"

definition clearCanvas :: "'a history_scheme \<Rightarrow> 'a history_scheme" where
  "clearCanvas s =
     (let cleared = s\<lparr>surface := blank (width (surface s)) (height (surface s)),
                      undoHistory := []\<rparr>
      in (saveToHistory cleared)\<lparr>canUndo := False\<rparr>)"

text \<open>
  The component starts with an empty history and \<^verbatim>\<open>canUndo = false\<close>; the mount effect
  sizes the canvas, paints the background and takes the baseline snapshot.
\<close>

definition unmounted :: history where
  "unmounted = \<lparr>surface = blank 0 0, undoHistory = [], canUndo = False\<rparr>"

definition mount :: "nat \<Rightarrow> nat \<Rightarrow> history" where
  "mount w h = saveToHistory (unmounted\<lparr>surface := blank w h\<rparr>)"

text \<open>
  A commit is an interaction that leaves the raster as \<open>cv\<close> and then calls
  \<^verbatim>\<open>saveToHistory\<close> (stroke release, stamp, fill, blend release).
\<close>

definition commit :: "canvas \<Rightarrow> 'a history_scheme \<Rightarrow> 'a history_scheme" where
  "commit cv s = saveToHistory (s\<lparr>surface := cv\<rparr>)"

datatype action = Commit canvas | Undo | Clear

fun perform :: "action \<Rightarrow> 'a history_scheme \<Rightarrow> 'a history_scheme" where
  "perform (Commit cv) s = commit cv s"
| "perform Undo s = undo s"
| "perform Clear s = clearCanvas s"

definition run :: "action list \<Rightarrow> 'a history_scheme \<Rightarrow> 'a history_scheme" where
  "run acts s = fold perform acts s"

text \<open>An undo succeeds when it removes a snapshot; otherwise it is a no-op.\<close>

definition undoSucceeds :: "'a history_scheme \<Rightarrow> bool" where
  "undoSucceeds s \<longleftrightarrow> length (undoHistory (undo s)) < length (undoHistory s)"

function availableUndos :: "'a history_scheme \<Rightarrow> nat" where
  "availableUndos s = (if undoSucceeds s then Suc (availableUndos (undo s)) else 0)"
  by pat_completeness auto
termination
  by (relation "measure (\<lambda>s. length (undoHistory s))") (auto simp: undoSucceeds_def)

declare availableUndos.simps [simp del]

section \<open>Component state\<close>

text \<open>
  The React state and refs that the drawing code reads. \<^verbatim>\<open>selectedColor\<close> is always one
  of the palette's \<^verbatim>\<open>#rrggbb\<close> strings; the model keeps its three bytes, which is what
  \<^verbatim>\<open>hexToRgb\<close> returns for it. \<^verbatim>\<open>shapeMode\<close> is \<^verbatim>\<open>null\<close> or a shape name.
\<close>

datatype brush = Segments | Dots | Radials | Crosshatch | Stipple | Fine

datatype shape = Concentric | Radial | Mesh | Dotted | Circle | Mandala

datatype fill_pattern = SolidFill | DotsFill | LinesFill | CrosshatchFill | StippleFill

datatype symmetry = NoSymmetry | Mirror

record bleed =
  bleedX :: real
  bleedY :: real
  radius :: real
  maxRadius :: real

record app = history +
  isDrawing :: bool
  isHolding :: bool
  isDraggingPanel :: bool
  selectedColor :: rgb
  brushSize :: real
  brushMode :: brush
  opacity :: real
  lineWeight :: real
  shapeMode :: "shape option"
  bleedEnabled :: bool
  blendMode :: bool
  fillMode :: bool
  fillPattern :: fill_pattern
  symmetryMode :: symmetry
  mirrorAngle :: real
  lastPos :: point
  bleedState :: bleed
  console :: "string list"

text \<open>
  Drawing calls on the 2D context. Each carries the \<^verbatim>\<open>globalAlpha\<close>, the colour and
  the alpha of the \<^verbatim>\<open>strokeStyle\<close> or \<^verbatim>\<open>fillStyle\<close> in force, and for strokes the
  \<^verbatim>\<open>lineWidth\<close>. A circle is \<^verbatim>\<open>arc(cx, cy, r, 0, 2 * Math.PI)\<close>; an arc carries its
  start and end angles. The line cap and join, set by some branches, are not recorded.
\<close>

datatype prim =
    StrokeLine real rgb real real point point
  | StrokeCircle real rgb real real point real
  | StrokeArc real rgb real real point real real real
  | FillCircle real rgb real point real

text \<open>
  What the browser supplies: the rasteriser of a drawing call, the pattern tile drawn by
  \<^verbatim>\<open>createPatternCanvas\<close>, the pixel copy and gradient of the blend (with the exception
  it may throw), \<^verbatim>\<open>Math.random\<close> and the canvas's bounding rectangle.
\<close>

record browser =
  render :: "prim \<Rightarrow> canvas \<Rightarrow> canvas"
  createPatternCanvas :: "fill_pattern \<Rightarrow> rgb \<Rightarrow> real \<Rightarrow> canvas"
  smudge :: "canvas \<Rightarrow> int \<times> int \<times> int \<times> int \<Rightarrow> point \<Rightarrow> point \<Rightarrow> real \<Rightarrow> real
               \<Rightarrow> string option \<times> canvas"
  random :: "nat \<Rightarrow> real"
  canvasRect :: point

record mouse =
  clientX :: real
  clientY :: real

section \<open>Symmetry transform\<close>

text \<open>
  The reflection written out in \<^verbatim>\<open>applySymmetry\<close> and again, for the previous position,
  in both callbacks of \<^verbatim>\<open>draw\<close>.
\<close>

definition reflect :: "real \<Rightarrow> real \<Rightarrow> real \<Rightarrow> point \<Rightarrow> point" where
  "reflect angle centerX centerY p =
     (let angleRad = (angle * pi) / 180;
          relX = fst p - centerX;
          relY = snd p - centerY;
          cos2a = cos (2 * angleRad);
          sin2a = sin (2 * angleRad);
          mirrorX = relX * cos2a + relY * sin2a;
          mirrorY = relX * sin2a - relY * cos2a
      in (mirrorX + centerX, mirrorY + centerY))"

definition centerX :: "canvas \<Rightarrow> real" where
  "centerX cv = real (width cv) / 2"

definition centerY :: "canvas \<Rightarrow> real" where
  "centerY cv = real (height cv) / 2"

definition mirrored :: "app \<Rightarrow> point \<Rightarrow> point" where
  "mirrored s p = reflect (mirrorAngle s) (centerX (surface s)) (centerY (surface s)) p"

definition applySymmetry :: "app \<Rightarrow> point \<Rightarrow> (point \<Rightarrow> app \<Rightarrow> app) \<Rightarrow> app" where
  "applySymmetry s p drawFunction =
     (case symmetryMode s of
        NoSymmetry \<Rightarrow> drawFunction p s
      | Mirror \<Rightarrow> drawFunction (mirrored s p) (drawFunction p s))"

section \<open>Shape stamps\<close>

definition onCircle :: "point \<Rightarrow> real \<Rightarrow> real \<Rightarrow> point" where
  "onCircle c angle r = (fst c + cos angle * r, snd c + sin angle * r)"

definition shapeCalls :: "app \<Rightarrow> point \<Rightarrow> shape \<Rightarrow> prim list" where
  "shapeCalls s c shp =
     (case shp of
        Concentric \<Rightarrow>
          (let numRings = \<lfloor>brushSize s / 8\<rfloor>
           in map (\<lambda>i. StrokeCircle (opacity s) (selectedColor s)
                          (opacity s * (1 - real i / real_of_int numRings)) (lineWeight s) c
                          (real (i + 1) * (brushSize s / real_of_int numRings)))
                  [0..<nat numRings])
      | Radial \<Rightarrow>
          map (\<lambda>i. StrokeLine (opacity s) (selectedColor s) (opacity s) (lineWeight s) c
                       (onCircle c ((real i / 24) * pi * 2) (brushSize s)))
              [0..<24]
      | Mesh \<Rightarrow>
          [StrokeCircle (opacity s) (selectedColor s) (opacity s * 0.6) (lineWeight s * 0.5) c
             (brushSize s)]
          @ map (\<lambda>i. StrokeLine (opacity s) (selectedColor s) (opacity s * 0.6)
                         (lineWeight s * 0.5) c
                         (onCircle c ((real i / 16) * pi * 2) (brushSize s)))
                [0..<16]
          @ [StrokeCircle (opacity s) (selectedColor s) (opacity s * 0.6) (lineWeight s * 0.5) c
               (brushSize s * 0.5),
             StrokeCircle (opacity s) (selectedColor s) (opacity s * 0.6) (lineWeight s * 0.5) c
               (brushSize s * 0.25)]
      | Dotted \<Rightarrow>
          (let numDots = \<lfloor>brushSize s / 3\<rfloor>
           in map (\<lambda>i. FillCircle (opacity s) (selectedColor s) (opacity s)
                          (onCircle c ((real i / real_of_int numDots) * pi * 2) (brushSize s))
                          (lineWeight s * 1.5))
                  [0..<nat numDots])
      | Circle \<Rightarrow>
          [StrokeCircle (opacity s) (selectedColor s) (opacity s) (lineWeight s) c (brushSize s)]
      | Mandala \<Rightarrow>
          concat (map (\<lambda>layer.
                    map (\<lambda>i. StrokeCircle (opacity s) (selectedColor s) (opacity s)
                                 (lineWeight s)
                                 (onCircle c ((real i / 8) * pi * 2)
                                    ((brushSize s / 3) * real layer))
                                 (((brushSize s / 3) * real layer) / 3))
                        [0..<8])
                  [1..<4])
          @ [StrokeCircle (opacity s) (selectedColor s) (opacity s) (lineWeight s) c
               (brushSize s / 6)])"

definition paint :: "browser \<Rightarrow> prim list \<Rightarrow> app \<Rightarrow> app" where
  "paint B calls s = s\<lparr>surface := fold (render B) calls (surface s)\<rparr>"

definition drawShape :: "browser \<Rightarrow> point \<Rightarrow> shape \<Rightarrow> app \<Rightarrow> app" where
  "drawShape B c shp s = paint B (shapeCalls s c shp) s"

text \<open>Accessors for the alpha of a call's colour and for a circle's radius.\<close>

fun colorAlpha :: "prim \<Rightarrow> real" where
  "colorAlpha (StrokeLine ga col a lw p q) = a"
| "colorAlpha (StrokeCircle ga col a lw c r) = a"
| "colorAlpha (StrokeArc ga col a lw c r a0 a1) = a"
| "colorAlpha (FillCircle ga col a c r) = a"

fun circleRadius :: "prim \<Rightarrow> real" where
  "circleRadius (StrokeLine ga col a lw p q) = 0"
| "circleRadius (StrokeCircle ga col a lw c r) = r"
| "circleRadius (StrokeArc ga col a lw c r a0 a1) = r"
| "circleRadius (FillCircle ga col a c r) = r"

section \<open>Brush strokes\<close>

text \<open>\<^verbatim>\<open>Math.atan2\<close> on numbers other than signed zeros and NaN.\<close>

definition atan2 :: "real \<Rightarrow> real \<Rightarrow> real" where
  "atan2 dy dx =
     (if dx > 0 then arctan (dy / dx)
      else if dx < 0 \<and> dy \<ge> 0 then arctan (dy / dx) + pi
      else if dx < 0 then arctan (dy / dx) - pi
      else if dy > 0 then pi / 2
      else if dy < 0 then - pi / 2
      else 0)"

definition along :: "app \<Rightarrow> real \<Rightarrow> real \<Rightarrow> real \<Rightarrow> point" where
  "along s dx dy t = (fst (lastPos s) + dx * t, snd (lastPos s) + dy * t)"

function segmentsLoop :: "app \<Rightarrow> real \<Rightarrow> real \<Rightarrow> real \<Rightarrow> real \<Rightarrow> bool \<Rightarrow> prim list" where
  "segmentsLoop s dx dy distance currentDist drawing =
     (if currentDist < distance then
        (if drawing then
           StrokeLine (opacity s) (selectedColor s) 1 (lineWeight s)
             (along s dx dy (currentDist / distance))
             (along s dx dy (min (currentDist + 5) distance / distance))
           # segmentsLoop s dx dy distance (currentDist + 5) (\<not> drawing)
         else segmentsLoop s dx dy distance (currentDist + 5) (\<not> drawing))
      else [])"
  by pat_completeness auto
termination
proof (relation "measure (\<lambda>(s, dx, dy, distance, currentDist, drawing).
                            nat \<lceil>(distance - currentDist) / 5\<rceil>)")
  show "wf (measure (\<lambda>(s :: app, dx :: real, dy :: real, distance :: real, currentDist :: real,
                        drawing :: bool). nat \<lceil>(distance - currentDist) / 5\<rceil>))"
    by simp
next
  fix s :: app and dx dy distance currentDist :: real and drawing :: bool
  assume lt: "currentDist < distance"
  have "(distance - (currentDist + 5)) / 5 = (distance - currentDist) / 5 - 1"
    by (simp add: field_simps)
  then have "\<lceil>(distance - (currentDist + 5)) / 5\<rceil> = \<lceil>(distance - currentDist) / 5\<rceil> - 1"
    by (simp only: ceiling_diff_one)
  moreover from lt have "0 < \<lceil>(distance - currentDist) / 5\<rceil>"
    by simp
  ultimately have fewer:
    "nat \<lceil>(distance - (currentDist + 5)) / 5\<rceil> < nat \<lceil>(distance - currentDist) / 5\<rceil>"
    by simp
  from fewer show "((s, dx, dy, distance, currentDist + 5, \<not> drawing),
               (s, dx, dy, distance, currentDist, drawing))
             \<in> measure (\<lambda>(s, dx, dy, distance, currentDist, drawing).
                            nat \<lceil>(distance - currentDist) / 5\<rceil>)"
    by simp
  from fewer show "((s, dx, dy, distance, currentDist + 5, \<not> drawing),
               (s, dx, dy, distance, currentDist, drawing))
             \<in> measure (\<lambda>(s, dx, dy, distance, currentDist, drawing).
                            nat \<lceil>(distance - currentDist) / 5\<rceil>)"
    by simp
qed

declare segmentsLoop.simps [simp del]

definition strokeCalls :: "browser \<Rightarrow> app \<Rightarrow> point \<Rightarrow> prim list" where
  "strokeCalls B s p =
     (let dx = fst p - fst (lastPos s);
          dy = snd p - snd (lastPos s);
          distance = sqrt (dx * dx + dy * dy);
          angle = atan2 dy dx
      in case brushMode s of
           Segments \<Rightarrow> segmentsLoop s dx dy distance 0 True
         | Dots \<Rightarrow>
             (let numDots = \<lfloor>distance / 3\<rfloor>
              in map (\<lambda>i. FillCircle (opacity s) (selectedColor s) 1
                             (along s dx dy (real i / real_of_int (max numDots 1)))
                             (lineWeight s))
                     [0..<nat (numDots + 1)])
         | Radials \<Rightarrow>
             (let numBursts = \<lfloor>distance / 20\<rfloor>
              in concat (map (\<lambda>i.
                   map (\<lambda>j. StrokeLine (opacity s) (selectedColor s) 1 (lineWeight s * 0.5)
                                (along s dx dy (real i / real_of_int (max numBursts 1)))
                                (onCircle (along s dx dy (real i / real_of_int (max numBursts 1)))
                                   ((real j / 8) * pi * 2) (brushSize s * 0.3)))
                       [0..<8])
                   [0..<nat (numBursts + 1)]))
         | Crosshatch \<Rightarrow>
             (let numHatches = \<lfloor>distance / 15\<rfloor>
              in concat (map (\<lambda>i.
                   (let c = along s dx dy (real i / real_of_int (max numHatches 1));
                        hatchLength = brushSize s * 0.4
                    in [StrokeLine (opacity s) (selectedColor s) 1 (lineWeight s * 0.7)
                          (onCircle c (angle + pi / 2) (hatchLength / 2))
                          (onCircle c (angle + pi / 2) (- (hatchLength / 2))),
                        StrokeLine (opacity s) (selectedColor s) 1 (lineWeight s * 0.7)
                          (onCircle c (angle + pi / 4) (hatchLength / 2))
                          (onCircle c (angle + pi / 4) (- (hatchLength / 2)))]))
                   [0..<nat (numHatches + 1)]))
         | Stipple \<Rightarrow>
             (let numDots = \<lfloor>distance * 0.5\<rfloor>
              in map (\<lambda>i.
                   (let c = along s dx dy (real i / real_of_int numDots);
                        offsetX = (random B (3 * i) - 0.5) * brushSize s;
                        offsetY = (random B (3 * i + 1) - 0.5) * brushSize s;
                        dotSize = lineWeight s * 0.5 * (0.5 + random B (3 * i + 2) * 0.5)
                    in FillCircle (opacity s) (selectedColor s) 1
                         (fst c + offsetX, snd c + offsetY) dotSize))
                   [0..<nat numDots])
         | Fine \<Rightarrow>
             [StrokeLine (opacity s) (selectedColor s) 1 (lineWeight s) (lastPos s) p])"

definition drawBrushStroke :: "browser \<Rightarrow> point \<Rightarrow> app \<Rightarrow> app" where
  "drawBrushStroke B p s = paint B (strokeCalls B s p) s"

section \<open>Bleed animator\<close>




section \<open>Blend\<close>

definition sampleRect :: "canvas \<Rightarrow> real \<Rightarrow> point \<Rightarrow> int \<times> int \<times> int \<times> int" where
  "sampleRect cv blendRadius prev =
     (let sourceX = max 0 \<lfloor>fst prev - blendRadius\<rfloor>;
          sourceY = max 0 \<lfloor>snd prev - blendRadius\<rfloor>;
          sourceWidth = min (int (width cv) - sourceX) \<lceil>blendRadius * 2\<rceil>;
          sourceHeight = min (int (height cv) - sourceY) \<lceil>blendRadius * 2\<rceil>
      in (sourceX, sourceY, sourceWidth, sourceHeight))"

text \<open>
  \<^verbatim>\<open>drawBlend(ctx, x, y, lastX, lastY)\<close>. After the two guards the body runs inside
  \<^verbatim>\<open>try\<close>; an exception is logged with \<^verbatim>\<open>console.error\<close> and not rethrown.
\<close>

definition drawBlend :: "browser \<Rightarrow> point \<Rightarrow> point \<Rightarrow> app \<Rightarrow> app" where
  "drawBlend B p prev s =
     (let blendRadius = brushSize s * 0.5;
          dx = fst p - fst prev;
          dy = snd p - snd prev;
          distance = sqrt (dx * dx + dy * dy)
      in if distance < 1 then s
         else case sampleRect (surface s) blendRadius prev of
           (sourceX, sourceY, sourceWidth, sourceHeight) \<Rightarrow>
             if sourceWidth \<le> 0 \<or> sourceHeight \<le> 0 then s
             else case smudge B (surface s) (sourceX, sourceY, sourceWidth, sourceHeight)
                         (dx * 0.5, dy * 0.5) p blendRadius (opacity s) of
                    (None, cv) \<Rightarrow> s\<lparr>surface := cv\<rparr>
                  | (Some e, cv) \<Rightarrow> s\<lparr>surface := cv, console := console s @ [e]\<rparr>)"

section \<open>Flood fill\<close>

text \<open>
  \<^verbatim>\<open>pixels[4 * i .. 4 * i + 3]\<close>: the four bytes of pixel \<open>i\<close>, or \<^verbatim>\<open>undefined\<close>
  (\<open>None\<close>) outside the array.
\<close>

definition pixelAt :: "rgba list \<Rightarrow> int \<Rightarrow> rgba option" where
  "pixelAt px i = (if 0 \<le> i \<and> i < int (length px) then Some (px ! nat i) else None)"

definition fillAlpha :: "real \<Rightarrow> int" where
  "fillAlpha op = \<lfloor>op * 255\<rfloor>"

text \<open>Storing an integer into a \<^verbatim>\<open>Uint8ClampedArray\<close>.\<close>

definition clampByte :: "int \<Rightarrow> 8 word" where
  "clampByte v = word_of_int (max 0 (min 255 v))"

definition sameAsFill :: "rgba option \<Rightarrow> rgb \<Rightarrow> int \<Rightarrow> bool" where
  "sameAsFill start fillRgb fillA =
     (case start of
        None \<Rightarrow> False
      | Some (r, g, b, a) \<Rightarrow> (r, g, b) = fillRgb \<and> uint a = fillA)"

text \<open>
  \<^verbatim>\<open>getImageData(x % width, y % height, 1, 1)\<close> on the pattern tile, for \<open>x, y \<ge> 0\<close>;
  pixels outside a canvas read as transparent black.
\<close>

definition patternPixel :: "canvas \<Rightarrow> int \<Rightarrow> int \<Rightarrow> rgba" where
  "patternPixel tile x y =
     (case pixelAt (pixels tile)
             ((y mod int (height tile)) * int (width tile) + x mod int (width tile)) of
        Some c \<Rightarrow> c
      | None \<Rightarrow> (0, 0, 0, 0))"

definition fillValue :: "canvas option \<Rightarrow> rgb \<Rightarrow> int \<Rightarrow> int \<Rightarrow> int \<Rightarrow> rgba" where
  "fillValue patternCanvas fillRgb fillA x y =
     (case patternCanvas of
        None \<Rightarrow> (fst fillRgb, fst (snd fillRgb), snd (snd fillRgb), clampByte fillA)
      | Some tile \<Rightarrow> patternPixel tile x y)"

text \<open>
  The \<^verbatim>\<open>while (pixelsToCheck.length > 0)\<close> loop. The stack holds coordinate pairs, its top
  first; \<open>visited\<close> is the set of indices at which the \<^verbatim>\<open>Uint8Array\<close> holds 1.
\<close>

function fillLoop ::
  "nat \<Rightarrow> nat \<Rightarrow> rgba option \<Rightarrow> (int \<Rightarrow> int \<Rightarrow> rgba) \<Rightarrow> rgba list \<Rightarrow> nat set \<Rightarrow> (int \<times> int) list
   \<Rightarrow> rgba list" where
  "fillLoop w h start src px visited [] = px"
| "fillLoop w h start src px visited ((x, y) # pixelsToCheck) =
     (if x < 0 \<or> x \<ge> int w \<or> y < 0 \<or> y \<ge> int h
      then fillLoop w h start src px visited pixelsToCheck
      else if nat (y * int w + x) \<in> visited
      then fillLoop w h start src px visited pixelsToCheck
      else if pixelAt px (y * int w + x) = start
      then fillLoop w h start src (px[nat (y * int w + x) := src x y])
             (insert (nat (y * int w + x)) visited)
             ((x, y - 1) # (x, y + 1) # (x - 1, y) # (x + 1, y) # pixelsToCheck)
      else fillLoop w h start src px (insert (nat (y * int w + x)) visited) pixelsToCheck)"
  by pat_completeness auto

lemma index_in_canvas:
  assumes "0 \<le> x" "x < int w" "0 \<le> y" "y < int h"
  shows "nat (y * int w + x) < w * h"
proof -
  have "y + 1 \<le> int h" using assms by simp
  then have "(y + 1) * int w \<le> int h * int w"
    by (rule mult_right_mono) simp
  then have "y * int w + x < int h * int w"
    using assms by (simp add: algebra_simps)
  then have lt: "y * int w + x < int (w * h)"
    by (simp add: mult.commute)
  have "0 \<le> y * int w" using assms by simp
  then have "0 \<le> y * int w + x" using assms by linarith
  with lt show ?thesis
    by (simp add: nat_less_iff)
qed

lemma unvisited_decreases:
  assumes "i < n" "i \<notin> visited"
  shows "card ({..<n} - insert i visited) < card ({..<n::nat} - visited)"
proof (rule psubset_card_mono)
  show "finite ({..<n} - visited)" by simp
  show "{..<n} - insert i visited \<subset> {..<n} - visited"
    using assms by auto
qed

termination fillLoop
proof (relation "inv_image (less_than <*lex*> less_than)
         (\<lambda>(w, h, start, src, px, visited, pixelsToCheck).
            (card ({..<w * h} - visited), length pixelsToCheck))", goal_cases)
  case 1
  show ?case by (intro wf_inv_image wf_lex_prod wf_less_than)
next
  case (2 w h start src px visited x y pixelsToCheck)
  show ?case by simp
next
  case (3 w h start src px visited x y pixelsToCheck)
  show ?case by simp
next
  case (4 w h start src px visited x y pixelsToCheck)
  then have "nat (y * int w + x) < w * h"
    by (intro index_in_canvas) auto
  with 4 have "card ({..<w * h} - insert (nat (y * int w + x)) visited)
                 < card ({..<w * h} - visited)"
    by (intro unvisited_decreases) auto
  then show ?case
    by (simp only: in_inv_image in_lex_prod less_than_iff prod.case simp_thms)
next
  case (5 w h start src px visited x y pixelsToCheck)
  then have "nat (y * int w + x) < w * h"
    by (intro index_in_canvas) auto
  with 5 have "card ({..<w * h} - insert (nat (y * int w + x)) visited)
                 < card ({..<w * h} - visited)"
    by (intro unvisited_decreases) auto
  then show ?case
    by (simp only: in_inv_image in_lex_prod less_than_iff prod.case simp_thms)
qed

definition floodFill :: "browser \<Rightarrow> point \<Rightarrow> rgb \<Rightarrow> app \<Rightarrow> app" where
  "floodFill B p fillColor s =
     (let cv = surface s;
          startX = \<lfloor>fst p\<rfloor>;
          startY = \<lfloor>snd p\<rfloor>;
          start = pixelAt (pixels cv) (startY * int (width cv) + startX);
          fillA = fillAlpha (opacity s)
      in if sameAsFill start fillColor fillA then s
         else let patternCanvas =
                    (if fillPattern s \<noteq> SolidFill
                     then Some (createPatternCanvas B (fillPattern s) fillColor (opacity s))
                     else None)
              in s\<lparr>surface := cv\<lparr>pixels :=
                     fillLoop (width cv) (height cv) start
                       (fillValue patternCanvas fillColor fillA) (pixels cv) {}
                       [(startX, startY)]\<rparr>\<rparr>)"

section \<open>Pointer handlers\<close>

definition eventPoint :: "browser \<Rightarrow> mouse \<Rightarrow> point" where
  "eventPoint B e = (clientX e - fst (canvasRect B), clientY e - snd (canvasRect B))"

definition startDrawing :: "browser \<Rightarrow> mouse \<Rightarrow> app \<Rightarrow> app" where
  "startDrawing B e s =
     (if isDraggingPanel s then s
      else let p = eventPoint B e
           in if fillMode s
              then saveToHistory (applySymmetry s p (\<lambda>sp. floodFill B sp (selectedColor s)))
              else if bleedEnabled s
              then s\<lparr>isDrawing := True, isHolding := True, lastPos := p,
                     bleedState := \<lparr>bleedX = fst p, bleedY = snd p, radius = 0,
                                     maxRadius = brushSize s * 4\<rparr>\<rparr>
              else case shapeMode s of
                     Some shp \<Rightarrow> saveToHistory (applySymmetry s p (\<lambda>sp. drawShape B sp shp))
                   | None \<Rightarrow> s\<lparr>isDrawing := True, lastPos := p\<rparr>)"

text \<open>
  The previous position that a symmetry branch at \<open>sp\<close> draws from, for the event point
  \<open>p\<close>: both callbacks of \<^verbatim>\<open>draw\<close> compute it the same way.
\<close>

definition isMirror :: "app \<Rightarrow> point \<Rightarrow> point \<Rightarrow> bool" where
  "isMirror s p sp =
     (let relX = fst sp - centerX (surface s);
          relY = snd sp - centerY (surface s);
          origRelX = fst p - centerX (surface s);
          origRelY = snd p - centerY (surface s)
      in \<bar>relX - origRelX\<bar> > 1 \<or> \<bar>relY - origRelY\<bar> > 1)"

definition branchLast :: "app \<Rightarrow> point \<Rightarrow> point \<Rightarrow> point" where
  "branchLast s p sp =
     (if symmetryMode s = Mirror \<and> isMirror s p sp then mirrored s (lastPos s) else lastPos s)"

definition blendBranch :: "browser \<Rightarrow> point \<Rightarrow> point \<Rightarrow> app \<Rightarrow> app" where
  "blendBranch B p sp s = drawBlend B sp (branchLast s p sp) s"

definition brushBranch :: "browser \<Rightarrow> point \<Rightarrow> point \<Rightarrow> app \<Rightarrow> app" where
  "brushBranch B p sp s =
     (let origLast = lastPos s;
          tempLastPos = branchLast s p sp;
          drawn = drawBrushStroke B sp (s\<lparr>lastPos := tempLastPos\<rparr>)
      in drawn\<lparr>lastPos := origLast\<rparr>)"

definition draw :: "browser \<Rightarrow> mouse \<Rightarrow> app \<Rightarrow> app" where
  "draw B e s =
     (if (\<not> isDrawing s \<and> \<not> isHolding s) \<or> shapeMode s \<noteq> None then s
      else let p = eventPoint B e
           in if bleedEnabled s \<and> isHolding s
              then (let dx = fst p - fst (lastPos s);
                        dy = snd p - snd (lastPos s);
                        distance = sqrt (dx * dx + dy * dy);
                        moved = (if distance > 5
                                 then s\<lparr>bleedState := (bleedState s)
                                          \<lparr>bleedX := fst p, bleedY := snd p,
                                           radius := max 0 (radius (bleedState s) * 0.7)\<rparr>\<rparr>
                                 else s)
                    in moved\<lparr>lastPos := p\<rparr>)
              else if blendMode s
              then (applySymmetry s p (blendBranch B p))\<lparr>lastPos := p\<rparr>
              else (applySymmetry s p (brushBranch B p))\<lparr>lastPos := p\<rparr>)"

definition stopDrawing :: "app \<Rightarrow> app" where
  "stopDrawing s =
     (let saved = (if isDrawing s \<or> isHolding s then saveToHistory s else s)
      in saved\<lparr>isDrawing := False, isHolding := False\<rparr>)"

section \<open>Initial state\<close>

text \<open>
  The component as mounted on a \<open>w \<times> h\<close> viewport, with the defaults of its
  \<^verbatim>\<open>useState\<close> calls, and a browser whose drawing calls leave the raster alone.
\<close>

definition initialApp :: "nat \<Rightarrow> nat \<Rightarrow> app" where
  "initialApp w h =
     \<lparr>surface = blank w h, undoHistory = [blank w h], canUndo = False,
      isDrawing = False, isHolding = False, isDraggingPanel = False,
      selectedColor = (107, 181, 199), brushSize = 40, brushMode = Segments,
      opacity = 0.7, lineWeight = 1, shapeMode = None, bleedEnabled = False,
      blendMode = False, fillMode = False, fillPattern = SolidFill,
      symmetryMode = NoSymmetry, mirrorAngle = 90, lastPos = (0, 0),
      bleedState = \<lparr>bleedX = 0, bleedY = 0, radius = 0, maxRadius = 0\<rparr>,
      console = []\<rparr>"

definition idleBrowser :: browser where
  "idleBrowser =
     \<lparr>render = (\<lambda>call cv. cv),
      createPatternCanvas = (\<lambda>pat col op. blank 20 20),
      smudge = (\<lambda>cv rect off p r op. (None, cv)),
      random = (\<lambda>k. 0),
      canvasRect = (0, 0)\<rparr>"

section \<open>Properties of the history manager\<close>

lemma length_saveToHistory:
  "length (undoHistory (saveToHistory s)) =
     (if length (undoHistory s) \<ge> maxUndoSteps then length (undoHistory s)
      else Suc (length (undoHistory s)))"
  by (simp add: saveToHistory_def Let_def)

lemma canUndo_saveToHistory:
  "canUndo (saveToHistory s) = (length (undoHistory (saveToHistory s)) > 1)"
  by (simp add: saveToHistory_def Let_def)

lemma length_undo:
  "length (undoHistory (undo s)) =
     (if length (undoHistory s) \<le> 1 then length (undoHistory s)
      else length (undoHistory s) - 1)"
  by (simp add: undo_def Let_def)

lemma canUndo_undo:
  "canUndo s = (length (undoHistory s) > 1) \<Longrightarrow>
   canUndo (undo s) = (length (undoHistory (undo s)) > 1)"
  by (simp add: undo_def Let_def)

lemma undoHistory_clearCanvas:
  "length (undoHistory (clearCanvas s)) = 1 \<and> \<not> canUndo (clearCanvas s)"
  by (simp add: clearCanvas_def saveToHistory_def Let_def maxUndoSteps_def)

definition historyInv :: "'a history_scheme \<Rightarrow> bool" where
  "historyInv s \<longleftrightarrow>
     length (undoHistory s) \<le> maxUndoSteps \<and> canUndo s = (length (undoHistory s) > 1)"

lemma historyInv_perform: "historyInv s \<Longrightarrow> historyInv (perform a s)"
proof (cases a)
  case (Commit cv)
  assume "historyInv s"
  then show ?thesis
    unfolding historyInv_def Commit perform.simps commit_def
    by (simp add: length_saveToHistory canUndo_saveToHistory)
next
  case Undo
  assume "historyInv s"
  then show ?thesis
    unfolding historyInv_def Undo perform.simps
    by (auto simp add: length_undo canUndo_undo)
next
  case Clear
  show ?thesis
    unfolding historyInv_def Clear perform.simps
    using undoHistory_clearCanvas [of s] by (simp add: maxUndoSteps_def)
qed

lemma historyInv_run: "historyInv s \<Longrightarrow> historyInv (run acts s)"
  unfolding run_def
  by (induction acts arbitrary: s) (simp_all add: historyInv_perform)

lemma historyInv_mount: "historyInv (mount w h)"
  by (simp add: historyInv_def mount_def unmounted_def saveToHistory_def Let_def maxUndoSteps_def)

lemma availableUndos_eq: "availableUndos s = length (undoHistory s) - 1"
proof (induction s rule: availableUndos.induct)
  case (1 s)
  show ?case
  proof (cases "undoSucceeds s")
    case True
    then have "length (undoHistory s) > 1"
      by (simp add: undoSucceeds_def length_undo split: if_splits)
    with True 1 show ?thesis
      by (subst availableUndos.simps) (simp add: length_undo)
  next
    case False
    then have "length (undoHistory s) \<le> 1"
      by (simp add: undoSucceeds_def length_undo split: if_splits)
    with False show ?thesis
      by (subst availableUndos.simps) simp
  qed
qed

lemma undo_noop: "\<not> undoSucceeds s \<Longrightarrow> undo s = s"
  by (simp add: undoSucceeds_def undo_def Let_def split: if_splits)

lemma length_undo_funpow:
  "length (undoHistory ((undo ^^ k) s)) =
     max (min 1 (length (undoHistory s))) (length (undoHistory s) - k)"
  by (induction k) (auto simp: length_undo)

lemma length_commits:
  "length (undoHistory s) \<le> maxUndoSteps \<Longrightarrow>
   length (undoHistory (run (map Commit cvs) s)) =
     min maxUndoSteps (length (undoHistory s) + length cvs)"
  unfolding run_def
proof (induction cvs arbitrary: s)
  case Nil
  then show ?case by simp
next
  case (Cons cv cvs)
  have l: "length (undoHistory (commit cv s)) = min maxUndoSteps (Suc (length (undoHistory s)))"
    using Cons.prems by (simp add: commit_def length_saveToHistory)
  then have "length (undoHistory (commit cv s)) \<le> maxUndoSteps" by simp
  from Cons.IH [OF this] l show ?case by (simp add: min_def)
qed

lemma length_mount: "length (undoHistory (mount w h)) = 1"
  by (simp add: mount_def unmounted_def saveToHistory_def Let_def maxUndoSteps_def)

text \<open>
  Claim C3, as the specification states it, fails: one commit after the baseline leaves
  two snapshots, so one undo succeeds, while \<open>min 1 20 - 1 = 0\<close>.
\<close>

theorem undo_count_after_one_commit:
  "availableUndos (run [Commit (blank 1 1)] (mount 1 1)) \<noteq> min 1 20 - 1"
  by (simp add: availableUndos_eq run_def commit_def mount_def unmounted_def saveToHistory_def
      Let_def maxUndoSteps_def)

text \<open>
  Claim C3, amended. Starting from the mounted component (one baseline snapshot), after
  every sequence of commits, undos and clears the history holds at most 20 snapshots and
  \<^verbatim>\<open>canUndo\<close> is true exactly when it holds more than one. After \<open>n\<close> commits following
  the baseline, the history holds \<open>min (n + 1) 20\<close> snapshots and undo succeeds exactly
  \<open>min (n + 1) 20 - 1\<close> times (19 times after 25 commits), and the undo after the last
  successful one changes nothing.
\<close>

theorem history_bounded_and_undo_count:
  "length (undoHistory (run acts (mount w h))) \<le> 20
   \<and> canUndo (run acts (mount w h)) = (length (undoHistory (run acts (mount w h))) > 1)
   \<and> length (undoHistory (run (map Commit cvs) (mount w h))) = min (length cvs + 1) 20
   \<and> availableUndos (run (map Commit cvs) (mount w h)) = min (length cvs + 1) 20 - 1
   \<and> availableUndos (run (map Commit (replicate 25 cv)) (mount w h)) = 19
   \<and> undo ((undo ^^ availableUndos (run acts (mount w h))) (run acts (mount w h)))
       = (undo ^^ availableUndos (run acts (mount w h))) (run acts (mount w h))"
proof -
  let ?s = "run acts (mount w h)"
  have inv: "historyInv ?s" by (rule historyInv_run [OF historyInv_mount])
  have a: "length (undoHistory ?s) \<le> 20"
    using inv by (simp add: historyInv_def maxUndoSteps_def)
  have b: "canUndo ?s = (length (undoHistory ?s) > 1)"
    using inv by (simp add: historyInv_def)
  have c: "availableUndos (run (map Commit xs) (mount w h)) = min (length xs + 1) 20 - 1"
    for xs :: "canvas list"
    by (simp add: availableUndos_eq length_commits length_mount maxUndoSteps_def min.commute)
  have n: "length (undoHistory (run (map Commit cvs) (mount w h))) = min (length cvs + 1) 20"
    by (simp add: length_commits length_mount maxUndoSteps_def min.commute)
  have c': "availableUndos (run (map Commit (replicate 25 cv)) (mount w h)) = 19"
    by (simp only: c length_replicate)
  have "\<not> undoSucceeds ((undo ^^ availableUndos ?s) ?s)"
    by (auto simp add: undoSucceeds_def length_undo length_undo_funpow availableUndos_eq)
  then have d: "undo ((undo ^^ availableUndos ?s) ?s) = (undo ^^ availableUndos ?s) ?s"
    by (rule undo_noop)
  from a b n c [of cvs] c' d show ?thesis by blast
qed

section \<open>Properties of the symmetry transform\<close>

lemma reflect_twice_x:
  fixes c s rx ry :: real
  assumes "c * c + s * s = 1"
  shows "(rx * c + ry * s) * c + (rx * s - ry * c) * s = rx"
proof -
  have "(rx * c + ry * s) * c + (rx * s - ry * c) * s = rx * (c * c + s * s)"
    by (simp add: algebra_simps)
  with assms show ?thesis by simp
qed

lemma reflect_twice_y:
  fixes c s rx ry :: real
  assumes "c * c + s * s = 1"
  shows "(rx * c + ry * s) * s - (rx * s - ry * c) * c = ry"
proof -
  have "(rx * c + ry * s) * s - (rx * s - ry * c) * c = ry * (c * c + s * s)"
    by (simp add: algebra_simps)
  with assms show ?thesis by simp
qed

lemma cos_sin_unit: "cos (t::real) * cos t + sin t * sin t = 1"
  using sin_cos_squared_add3 [of t] by simp

text \<open>
  Claim C5. Reflecting a point twice through the same axis, about the same centre, gives
  the point back. Numbers are real here, so the equality is exact.
\<close>

theorem reflect_involution: "reflect angle cx cy (reflect angle cx cy p) = p"
proof -
  let ?t = "2 * ((angle * pi) / 180)"
  have u: "cos ?t * cos ?t + sin ?t * sin ?t = 1" by (rule cos_sin_unit)
  show ?thesis
    unfolding reflect_def Let_def fst_conv snd_conv
    by (simp only: add_diff_cancel reflect_twice_x [OF u] reflect_twice_y [OF u] prod.collapse
        diff_add_cancel add_diff_cancel_right')
qed

section \<open>Properties of the bleed animator\<close>










section \<open>Properties of the shape stamps\<close>

definition numRings :: "app \<Rightarrow> nat" where
  "numRings s = nat \<lfloor>brushSize s / 8\<rfloor>"

lemma concentric_nth:
  assumes "i < numRings s"
  shows "shapeCalls s c Concentric ! i =
           StrokeCircle (opacity s) (selectedColor s)
             (opacity s * (1 - real i / real (numRings s))) (lineWeight s) c
             (real (i + 1) * (brushSize s / real (numRings s)))"
proof -
  from assms have "i < nat \<lfloor>brushSize s / 8\<rfloor>" by (simp only: numRings_def)
  then have "0 \<le> \<lfloor>brushSize s / 8\<rfloor>" by linarith
  then have "real_of_int \<lfloor>brushSize s / 8\<rfloor> = real (numRings s)"
    by (simp add: numRings_def)
  with assms show ?thesis
    by (simp add: shapeCalls_def Let_def numRings_def del: of_nat_Suc of_nat_add)
qed

lemma concentric_length: "length (shapeCalls s c Concentric) = numRings s"
  by (simp add: shapeCalls_def Let_def numRings_def)

lemma ring_alpha_decreasing:
  assumes "0 < opacity s" "i < j" "j < numRings s"
  shows "colorAlpha (shapeCalls s c Concentric ! j) < colorAlpha (shapeCalls s c Concentric ! i)"
proof -
  have n: "0 < real (numRings s)" using assms by simp
  have "real i / real (numRings s) < real j / real (numRings s)"
    using assms n by (simp add: divide_strict_right_mono)
  then have "opacity s * (1 - real j / real (numRings s)) < opacity s * (1 - real i / real (numRings s))"
    using assms(1) by simp
  moreover have "i < numRings s" using assms by simp
  ultimately show ?thesis
    using assms by (simp only: concentric_nth colorAlpha.simps)
qed

lemma ring_radius_last:
  assumes "0 < numRings s"
  shows "circleRadius (last (shapeCalls s c Concentric)) = brushSize s"
proof -
  have ne: "shapeCalls s c Concentric \<noteq> []"
    using assms concentric_length [of s c] by auto
  have "last (shapeCalls s c Concentric) = shapeCalls s c Concentric ! (numRings s - 1)"
    using ne by (simp add: last_conv_nth concentric_length)
  also have "\<dots> = StrokeCircle (opacity s) (selectedColor s)
             (opacity s * (1 - real (numRings s - 1) / real (numRings s))) (lineWeight s) c
             (real (numRings s - 1 + 1) * (brushSize s / real (numRings s)))"
    using assms by (intro concentric_nth) simp
  finally show ?thesis using assms by simp
qed

text \<open>
  Claim C7. A concentric stamp issues exactly \<open>\<lfloor>brushSize / 8\<rfloor>\<close> stroked circles;
  ring \<open>i\<close> has radius \<open>(i + 1) * (brushSize / numRings)\<close>, so the radii are evenly spaced
  and the last one is \<open>brushSize\<close>, and its stroke colour has alpha
  \<open>opacity * (1 - i / numRings)\<close>, which for a positive opacity decreases strictly from
  the innermost ring outwards. With \<open>brushSize = 40\<close> there are 5 rings.
\<close>

theorem concentric_rings:
  "length (shapeCalls s c Concentric) = nat \<lfloor>brushSize s / 8\<rfloor>
   \<and> (\<forall>i < numRings s. shapeCalls s c Concentric ! i =
           StrokeCircle (opacity s) (selectedColor s)
             (opacity s * (1 - real i / real (numRings s))) (lineWeight s) c
             (real (i + 1) * (brushSize s / real (numRings s))))
   \<and> (0 < opacity s \<longrightarrow>
        (\<forall>i j. i < j \<and> j < numRings s \<longrightarrow>
           colorAlpha (shapeCalls s c Concentric ! j) < colorAlpha (shapeCalls s c Concentric ! i)))
   \<and> (0 < numRings s \<longrightarrow> circleRadius (last (shapeCalls s c Concentric)) = brushSize s)
   \<and> (brushSize s = 40 \<longrightarrow> length (shapeCalls s c Concentric) = 5)"
proof -
  have a: "length (shapeCalls s c Concentric) = nat \<lfloor>brushSize s / 8\<rfloor>"
    using concentric_length [of s c] by (simp add: numRings_def)
  have e: "brushSize s = 40 \<longrightarrow> length (shapeCalls s c Concentric) = 5"
    using a by simp
  from a e concentric_nth [of _ s c] ring_alpha_decreasing [of s _ _ c] ring_radius_last [of s c]
  show ?thesis by blast
qed

theorem concentric_rings_witness:
  "0 < opacity (initialApp 800 600)
   \<and> (0::nat) < 4 \<and> 4 < numRings (initialApp 800 600)
   \<and> brushSize (initialApp 800 600) = 40
   \<and> length (shapeCalls (initialApp 800 600) (100, 100) Concentric) = 5
   \<and> colorAlpha (shapeCalls (initialApp 800 600) (100, 100) Concentric ! 4)
       < colorAlpha (shapeCalls (initialApp 800 600) (100, 100) Concentric ! 0)
   \<and> circleRadius (last (shapeCalls (initialApp 800 600) (100, 100) Concentric)) = 40"
proof -
  let ?s = "initialApp 800 600"
  have h1: "0 < opacity ?s" by (simp add: initialApp_def)
  have h2: "(0::nat) < 4 \<and> 4 < numRings ?s" by (simp add: initialApp_def numRings_def)
  have h3: "brushSize ?s = 40" by (simp add: initialApp_def)
  from h2 have h4: "0 < numRings ?s" by simp
  show ?thesis
    using h1 h2 h3 h4 concentric_rings [of ?s "(100, 100)"] by metis
qed

section \<open>Properties of the blend\<close>

definition segmentLength :: "point \<Rightarrow> point \<Rightarrow> real" where
  "segmentLength prev p =
     sqrt ((fst p - fst prev) * (fst p - fst prev) + (snd p - snd prev) * (snd p - snd prev))"

text \<open>
  The width and height that \<^verbatim>\<open>drawBlend\<close> computes and tests in its second guard.
\<close>

definition guardWidth :: "app \<Rightarrow> point \<Rightarrow> int" where
  "guardWidth s prev = fst (snd (snd (sampleRect (surface s) (brushSize s * 0.5) prev)))"

definition guardHeight :: "app \<Rightarrow> point \<Rightarrow> int" where
  "guardHeight s prev = snd (snd (snd (sampleRect (surface s) (brushSize s * 0.5) prev)))"

text \<open>
  The sample square of the specification, clipped to the canvas: the square of side
  \<open>\<lceil>2 * blendRadius\<rceil>\<close> whose corner is \<open>\<lfloor>last - blendRadius\<rfloor>\<close>, cut at all four
  edges of the canvas. A square that lies wholly beside the canvas has a clipped width or
  height of zero or less.
\<close>

definition clippedWidth :: "app \<Rightarrow> point \<Rightarrow> int" where
  "clippedWidth s prev =
     (let left = \<lfloor>fst prev - brushSize s * 0.5\<rfloor>;
          side = \<lceil>brushSize s * 0.5 * 2\<rceil>
      in min (int (width (surface s))) (left + side) - max 0 left)"

definition clippedHeight :: "app \<Rightarrow> point \<Rightarrow> int" where
  "clippedHeight s prev =
     (let top = \<lfloor>snd prev - brushSize s * 0.5\<rfloor>;
          side = \<lceil>brushSize s * 0.5 * 2\<rceil>
      in min (int (height (surface s))) (top + side) - max 0 top)"

text \<open>
  The blend returns the state as it was when the motion is shorter than one pixel or one of
  the computed sides is zero or less; otherwise it runs its body. Where the square's corner
  is not left of or above the canvas, the computed sides are those of the clipped square.
\<close>

lemma drawBlend_guards:
  assumes "segmentLength prev p < 1 \<or> guardWidth s prev \<le> 0 \<or> guardHeight s prev \<le> 0"
  shows "drawBlend B p prev s = s"
  using assms
  by (auto simp add: drawBlend_def segmentLength_def guardWidth_def guardHeight_def Let_def
      split: prod.splits)

lemma drawBlend_runs:
  assumes "\<not> segmentLength prev p < 1" and "0 < guardWidth s prev" and "0 < guardHeight s prev"
  shows "drawBlend B p prev s =
           (case smudge B (surface s) (sampleRect (surface s) (brushSize s * 0.5) prev)
                   ((fst p - fst prev) * 0.5, (snd p - snd prev) * 0.5) p (brushSize s * 0.5)
                   (opacity s) of
              (None, cv) \<Rightarrow> s\<lparr>surface := cv\<rparr>
            | (Some e, cv) \<Rightarrow> s\<lparr>surface := cv, console := console s @ [e]\<rparr>)"
  using assms
  by (auto simp add: drawBlend_def segmentLength_def guardWidth_def guardHeight_def Let_def
      split: prod.splits)

lemma guardWidth_clipped:
  "0 \<le> \<lfloor>fst prev - brushSize s * 0.5\<rfloor> \<Longrightarrow> guardWidth s prev = clippedWidth s prev"
  by (simp add: guardWidth_def clippedWidth_def sampleRect_def Let_def min_def max_def)

lemma guardHeight_clipped:
  "0 \<le> \<lfloor>snd prev - brushSize s * 0.5\<rfloor> \<Longrightarrow> guardHeight s prev = clippedHeight s prev"
  by (simp add: guardHeight_def clippedHeight_def sampleRect_def Let_def min_def max_def)

lemma drawBlend_clipped_noop:
  assumes "0 \<le> \<lfloor>fst prev - brushSize s * 0.5\<rfloor>" and "0 \<le> \<lfloor>snd prev - brushSize s * 0.5\<rfloor>"
    and "segmentLength prev p < 1 \<or> clippedWidth s prev \<le> 0 \<or> clippedHeight s prev \<le> 0"
  shows "drawBlend B p prev s = s"
  using assms(3) guardWidth_clipped [OF assms(1)] guardHeight_clipped [OF assms(2)]
  by (intro drawBlend_guards) simp

text \<open>
  A drag in blend mode with the mirror axis at 45 degrees, from (10, 300) to (20, 300) on an
  800 by 600 canvas.
\<close>

definition blendApp :: app where
  "blendApp = (initialApp 800 600)\<lparr>isDrawing := True, blendMode := True,
                 symmetryMode := Mirror, mirrorAngle := 45, lastPos := (10, 300)\<rparr>"

lemma mirrored_blendApp: "mirrored blendApp (x, y) = (y + 100, x - 100)"
  by (simp add: mirrored_def reflect_def blendApp_def initialApp_def centerX_def centerY_def
      blank_def Let_def)

text \<open>
  Claim C9 does not hold of the code. In the mirrored branch of that drag the blend goes
  from (400, -90) to (400, -80); the sample square lies wholly above the canvas, so its
  clipped height is negative. The code moves the corner to row 0 without shortening the
  side, computes the rectangle (380, 0, 40, 40), passes its guard and runs the body on
  those pixels.
\<close>

theorem blend_above_canvas_runs:
  "mirrored blendApp (20, 300) = (400, - 80)
   \<and> branchLast blendApp (20, 300) (400, - 80) = (400, - 90)
   \<and> clippedHeight blendApp (400, - 90) = - 70
   \<and> sampleRect (surface blendApp) (brushSize blendApp * 0.5) (400, - 90) = (380, 0, 40, 40)
   \<and> draw (idleBrowser\<lparr>smudge := f\<rparr>) \<lparr>clientX = 20, clientY = 300\<rparr> blendApp
       = (blendBranch (idleBrowser\<lparr>smudge := f\<rparr>) (20, 300) (400, - 80)
            (drawBlend (idleBrowser\<lparr>smudge := f\<rparr>) (20, 300) (10, 300) blendApp))
         \<lparr>lastPos := (20, 300)\<rparr>
   \<and> blendBranch B (20, 300) (400, - 80) blendApp
       = (case smudge B (surface blendApp) (380, 0, 40, 40) (0, 5) (400, - 80) 20 0.7 of
            (None, cv) \<Rightarrow> blendApp\<lparr>surface := cv\<rparr>
          | (Some e, cv) \<Rightarrow> blendApp\<lparr>surface := cv, console := console blendApp @ [e]\<rparr>)"
proof -
  have a: "mirrored blendApp (20, 300) = (400, - 80)"
    by (simp add: mirrored_blendApp)
  have l: "lastPos blendApp = (10, 300)" by (simp add: blendApp_def)
  have m: "symmetryMode blendApp = Mirror" by (simp add: blendApp_def)
  have im: "isMirror t (20, 300) (400, - 80)" for t
    by (simp add: isMirror_def Let_def)
  have nm: "\<not> isMirror t (20, 300) (20, 300)" for t
    by (simp add: isMirror_def Let_def)
  have b: "branchLast blendApp (20, 300) (400, - 80) = (400, - 90)"
    by (simp add: branchLast_def m im l mirrored_blendApp)
  have c: "clippedHeight blendApp (400, - 90) = - 70"
    by (simp add: clippedHeight_def blendApp_def initialApp_def blank_def Let_def)
  have r: "sampleRect (surface blendApp) (brushSize blendApp * 0.5) (400, - 90) = (380, 0, 40, 40)"
    by (simp add: sampleRect_def blendApp_def initialApp_def blank_def Let_def)
  have d: "draw (idleBrowser\<lparr>smudge := f\<rparr>) \<lparr>clientX = 20, clientY = 300\<rparr> blendApp
       = (blendBranch (idleBrowser\<lparr>smudge := f\<rparr>) (20, 300) (400, - 80)
            (drawBlend (idleBrowser\<lparr>smudge := f\<rparr>) (20, 300) (10, 300) blendApp))
         \<lparr>lastPos := (20, 300)\<rparr>"
  proof -
    let ?B = "idleBrowser\<lparr>smudge := f\<rparr>"
    have e: "eventPoint ?B \<lparr>clientX = 20, clientY = 300\<rparr> = (20, 300)"
      by (simp add: eventPoint_def idleBrowser_def)
    have first: "blendBranch ?B (20, 300) (20, 300) blendApp
                   = drawBlend ?B (20, 300) (10, 300) blendApp"
      by (simp add: blendBranch_def branchLast_def nm l)
    have path: "draw ?B \<lparr>clientX = 20, clientY = 300\<rparr> blendApp =
        (applySymmetry blendApp (20, 300) (blendBranch ?B (20, 300)))\<lparr>lastPos := (20, 300)\<rparr>"
      unfolding draw_def e by (simp add: blendApp_def initialApp_def Let_def)
    have sym: "applySymmetry blendApp (20, 300) (blendBranch ?B (20, 300)) =
        blendBranch ?B (20, 300) (400, - 80) (blendBranch ?B (20, 300) (20, 300) blendApp)"
      unfolding applySymmetry_def a by (simp add: m)
    show ?thesis by (simp only: path sym first)
  qed
  have sl: "\<not> segmentLength (400, - 90) (400, - 80) < 1"
    using real_sqrt_abs2 [of 10] by (simp add: segmentLength_def)
  have gw: "0 < guardWidth blendApp (400, - 90)" unfolding guardWidth_def r by simp
  have gh: "0 < guardHeight blendApp (400, - 90)" unfolding guardHeight_def r by simp
  have g: "blendBranch B (20, 300) (400, - 80) blendApp
       = (case smudge B (surface blendApp) (380, 0, 40, 40) (0, 5) (400, - 80) 20 0.7 of
            (None, cv) \<Rightarrow> blendApp\<lparr>surface := cv\<rparr>
          | (Some e, cv) \<Rightarrow> blendApp\<lparr>surface := cv, console := console blendApp @ [e]\<rparr>)"
    unfolding blendBranch_def b drawBlend_runs [OF sl gw gh] r
    by (simp add: blendApp_def initialApp_def)
  from a b c r d g show ?thesis by blast
qed

section \<open>Properties of the pointer-move handler\<close>

lemma lastPos_paint: "lastPos (paint B calls s) = lastPos s"
  by (simp add: paint_def)

lemma lastPos_brushBranch: "lastPos (brushBranch B p sp s) = lastPos s"
  by (simp add: brushBranch_def Let_def)

lemma brushBranch_start:
  "brushBranch B p sp s = (paint B (strokeCalls B (s\<lparr>lastPos := branchLast s p sp\<rparr>) sp) s)"
  by (simp add: brushBranch_def Let_def drawBrushStroke_def paint_def)

text \<open>
  Claim C10. On the brush-stroke path of \<^verbatim>\<open>draw\<close> (drawing or holding, no shape mode, not
  the bleed path, not blend mode) the last position after the handler is the event point,
  whatever the brush and symmetry modes; every symmetry branch leaves the last position as
  it found it, so the overwrite made for the branch is undone before the final update.
\<close>

theorem draw_brush_lastPos:
  assumes "isDrawing s \<or> isHolding s" and "shapeMode s = None"
    and "\<not> (bleedEnabled s \<and> isHolding s)" and "\<not> blendMode s"
  shows "lastPos (draw B e s) = eventPoint B e
         \<and> lastPos (brushBranch B (eventPoint B e) sp t) = lastPos t
         \<and> draw B e s = (applySymmetry s (eventPoint B e) (brushBranch B (eventPoint B e)))
                           \<lparr>lastPos := eventPoint B e\<rparr>"
  using assms by (auto simp add: draw_def Let_def lastPos_brushBranch)


theorem draw_brush_lastPos_witness:
  "(isDrawing ((initialApp 800 600)\<lparr>isDrawing := True, symmetryMode := Mirror,
                                      lastPos := (200, 300)\<rparr>)
    \<or> isHolding ((initialApp 800 600)\<lparr>isDrawing := True, symmetryMode := Mirror,
                                        lastPos := (200, 300)\<rparr>))
   \<and> shapeMode ((initialApp 800 600)\<lparr>isDrawing := True, symmetryMode := Mirror,
                                       lastPos := (200, 300)\<rparr>) = None
   \<and> \<not> blendMode ((initialApp 800 600)\<lparr>isDrawing := True, symmetryMode := Mirror,
                                         lastPos := (200, 300)\<rparr>)
   \<and> lastPos (draw idleBrowser \<lparr>clientX = 210, clientY = 310\<rparr>
        ((initialApp 800 600)\<lparr>isDrawing := True, symmetryMode := Mirror,
                               lastPos := (200, 300)\<rparr>)) = (210, 310)"
proof -
  let ?s = "(initialApp 800 600)\<lparr>isDrawing := True, symmetryMode := Mirror,
                                  lastPos := (200, 300)\<rparr>"
  have h1: "isDrawing ?s \<or> isHolding ?s" by (simp add: initialApp_def)
  have h2: "shapeMode ?s = None" by (simp add: initialApp_def)
  have h3: "\<not> (bleedEnabled ?s \<and> isHolding ?s)" by (simp add: initialApp_def)
  have h4: "\<not> blendMode ?s" by (simp add: initialApp_def)
  have p: "eventPoint idleBrowser \<lparr>clientX = 210, clientY = 310\<rparr> = (210, 310)"
    by (simp add: eventPoint_def idleBrowser_def)
  have "lastPos (draw idleBrowser \<lparr>clientX = 210, clientY = 310\<rparr> ?s)
          = eventPoint idleBrowser \<lparr>clientX = 210, clientY = 310\<rparr>"
    using draw_brush_lastPos [OF h1 h2 h3 h4] by blast
  then have "lastPos (draw idleBrowser \<lparr>clientX = 210, clientY = 310\<rparr> ?s) = (210, 310)"
    by (simp only: p)
  with h1 h2 h4 show ?thesis by blast
qed

section \<open>The mirrored branch near the axis\<close>

lemma branchLast_mirror:
  "symmetryMode s = Mirror \<Longrightarrow> isMirror s p sp \<Longrightarrow> branchLast s p sp = mirrored s (lastPos s)"
  by (simp add: branchLast_def)

lemma branchLast_near:
  "\<not> isMirror s p sp \<Longrightarrow> branchLast s p sp = lastPos s"
  by (simp add: branchLast_def)

definition nearAxisApp :: app where
  "nearAxisApp = (initialApp 800 600)\<lparr>isDrawing := True, brushMode := Fine,
                    symmetryMode := Mirror, lastPos := (380, 300)\<rparr>"

lemma double_right_angle: "2 * (90 * pi / 180) = (pi::real)"
  by simp

lemma mirrored_nearAxis: "mirrored nearAxisApp (x, y) = (800 - x, y)"
  by (simp add: mirrored_def reflect_def nearAxisApp_def initialApp_def centerX_def centerY_def
      blank_def Let_def)

text \<open>
  Claim C4 does not hold of the code. With a vertical mirror axis on an 800 by 600 canvas,
  the last position at (380, 300) and a pointer move to (400, 300) on the axis, the mirrored
  point coincides with the event point, the test \<^verbatim>\<open>isMirror\<close> is false in the mirrored
  callback, and that callback draws from the unreflected (380, 300) rather than from the
  reflection (420, 300): both branches issue the same line.
\<close>

theorem mirror_branch_near_axis:
  "mirrored nearAxisApp (400, 300) = (400, 300)
   \<and> branchLast nearAxisApp (400, 300) (mirrored nearAxisApp (400, 300)) = (380, 300)
   \<and> mirrored nearAxisApp (lastPos nearAxisApp) = (420, 300)
   \<and> draw (idleBrowser\<lparr>render := r\<rparr>) \<lparr>clientX = 400, clientY = 300\<rparr> nearAxisApp =
       (paint (idleBrowser\<lparr>render := r\<rparr>)
          [StrokeLine 0.7 (107, 181, 199) 1 1 (380, 300) (400, 300)]
          (paint (idleBrowser\<lparr>render := r\<rparr>)
             [StrokeLine 0.7 (107, 181, 199) 1 1 (380, 300) (400, 300)] nearAxisApp))
       \<lparr>lastPos := (400, 300)\<rparr>"
proof -
  have a: "mirrored nearAxisApp (400, 300) = (400, 300)"
    by (simp add: mirrored_nearAxis)
  have l: "lastPos nearAxisApp = (380, 300)" by (simp add: nearAxisApp_def)
  have nm: "\<not> isMirror t (400, 300) (400, 300)" for t
    by (simp add: isMirror_def Let_def)
  have b: "branchLast nearAxisApp (400, 300) (mirrored nearAxisApp (400, 300)) = (380, 300)"
    by (simp only: a branchLast_near [OF nm] l)
  have c: "mirrored nearAxisApp (lastPos nearAxisApp) = (420, 300)"
    by (simp add: l mirrored_nearAxis)
  have d: "draw (idleBrowser\<lparr>render := r\<rparr>) \<lparr>clientX = 400, clientY = 300\<rparr> nearAxisApp =
       (paint (idleBrowser\<lparr>render := r\<rparr>)
          [StrokeLine 0.7 (107, 181, 199) 1 1 (380, 300) (400, 300)]
          (paint (idleBrowser\<lparr>render := r\<rparr>)
             [StrokeLine 0.7 (107, 181, 199) 1 1 (380, 300) (400, 300)] nearAxisApp))
       \<lparr>lastPos := (400, 300)\<rparr>"
  proof -
    let ?B = "idleBrowser\<lparr>render := r\<rparr>"
    let ?L = "StrokeLine 0.7 (107, 181, 199) 1 1 (380, 300) (400, 300)"
    have e: "eventPoint ?B \<lparr>clientX = 400, clientY = 300\<rparr> = (400, 300)"
      by (simp add: eventPoint_def idleBrowser_def)
    have bb: "brushBranch ?B (400, 300) (400, 300) t = paint ?B (strokeCalls ?B t (400, 300)) t"
      for t
      by (simp add: brushBranch_def Let_def branchLast_near [OF nm] drawBrushStroke_def paint_def)
    have s1: "strokeCalls ?B nearAxisApp (400, 300) = [?L]"
      by (simp add: strokeCalls_def Let_def nearAxisApp_def initialApp_def)
    have s2: "strokeCalls ?B (paint ?B [?L] nearAxisApp) (400, 300) = [?L]"
      by (simp add: strokeCalls_def Let_def paint_def nearAxisApp_def initialApp_def)
    have path: "draw ?B \<lparr>clientX = 400, clientY = 300\<rparr> nearAxisApp =
        (applySymmetry nearAxisApp (400, 300) (brushBranch ?B (400, 300)))\<lparr>lastPos := (400, 300)\<rparr>"
      unfolding draw_def e by (simp add: nearAxisApp_def initialApp_def Let_def)
    have sym: "applySymmetry nearAxisApp (400, 300) (brushBranch ?B (400, 300)) =
        brushBranch ?B (400, 300) (400, 300) (brushBranch ?B (400, 300) (400, 300) nearAxisApp)"
      unfolding applySymmetry_def a by (simp add: nearAxisApp_def initialApp_def)
    show ?thesis
      by (simp only: path sym bb s1 s2)
  qed
  from a b c d show ?thesis by blast
qed


section \<open>Primitive counts of a brush stroke\<close>

















section \<open>The region filled by a flood fill\<close>

text \<open>
  Pixels are addressed by integer coordinates. The region of a seed is the set of pixels
  reached from it by steps to one of the four neighbours, inside the canvas, through pixels
  whose RGBA equals the seed's: the maximal 4-connected set of matching pixels around the
  seed.
\<close>

definition inCanvas :: "canvas \<Rightarrow> int \<times> int \<Rightarrow> bool" where
  "inCanvas cv q \<longleftrightarrow>
     0 \<le> fst q \<and> fst q < int (width cv) \<and> 0 \<le> snd q \<and> snd q < int (height cv)"

definition pixelOf :: "canvas \<Rightarrow> int \<times> int \<Rightarrow> rgba option" where
  "pixelOf cv q = pixelAt (pixels cv) (snd q * int (width cv) + fst q)"

definition neighbours :: "int \<times> int \<Rightarrow> (int \<times> int) set" where
  "neighbours q = {(fst q + 1, snd q), (fst q - 1, snd q), (fst q, snd q + 1), (fst q, snd q - 1)}"

inductive_set region :: "canvas \<Rightarrow> int \<times> int \<Rightarrow> (int \<times> int) set"
  for cv :: canvas and seed :: "int \<times> int" where
  seed: "inCanvas cv seed \<Longrightarrow> seed \<in> region cv seed"
| step: "q \<in> region cv seed \<Longrightarrow> q' \<in> neighbours q \<Longrightarrow> inCanvas cv q'
         \<Longrightarrow> pixelOf cv q' = pixelOf cv seed \<Longrightarrow> q' \<in> region cv seed"

definition changed :: "canvas \<Rightarrow> canvas \<Rightarrow> (int \<times> int) set" where
  "changed cv cv' = {q. inCanvas cv q \<and> pixelOf cv' q \<noteq> pixelOf cv q}"

definition idx :: "canvas \<Rightarrow> int \<times> int \<Rightarrow> nat" where
  "idx cv q = nat (snd q * int (width cv) + fst q)"

lemma idx_less:
  "inCanvas cv q \<Longrightarrow> idx cv q < width cv * height cv"
  unfolding inCanvas_def idx_def by (intro index_in_canvas) auto

lemma idx_nonneg: "inCanvas cv q \<Longrightarrow> 0 \<le> snd q * int (width cv) + fst q"
  unfolding inCanvas_def by (simp add: add_nonneg_nonneg)

lemma idx_inj:
  assumes "inCanvas cv q" "inCanvas cv q'" "idx cv q = idx cv q'"
  shows "q = q'"
proof -
  let ?w = "int (width cv)"
  from assms have e: "snd q * ?w + fst q = snd q' * ?w + fst q'"
    using idx_nonneg [of cv q] idx_nonneg [of cv q'] by (simp add: idx_def)
  have a: "(snd q * ?w + fst q) mod ?w = fst q"
    using assms(1) by (simp add: inCanvas_def)
  have a': "(snd q' * ?w + fst q') mod ?w = fst q'"
    using assms(2) by (simp add: inCanvas_def)
  have b: "(snd q * ?w + fst q) div ?w = snd q"
    using assms(1) by (simp add: inCanvas_def)
  have b': "(snd q' * ?w + fst q') div ?w = snd q'"
    using assms(2) by (simp add: inCanvas_def)
  from e a a' have "fst q = fst q'" by simp
  moreover from e b b' have "snd q = snd q'" by simp
  ultimately show ?thesis by (simp add: prod_eq_iff)
qed

lemma pixelOf_in:
  assumes "wellFormed cv" "inCanvas cv q"
  shows "pixelOf cv q = Some (pixels cv ! idx cv q)"
  using assms idx_less [OF assms(2)] idx_nonneg [OF assms(2)]
  by (simp add: pixelOf_def pixelAt_def idx_def wellFormed_def nat_less_iff)

lemma pixelAt_in:
  assumes "length px = width cv * height cv" "inCanvas cv q"
  shows "pixelAt px (snd q * int (width cv) + fst q) = Some (px ! idx cv q)"
  using assms idx_less [OF assms(2)] idx_nonneg [OF assms(2)]
  by (simp add: pixelAt_def idx_def nat_less_iff)

definition matches :: "canvas \<Rightarrow> int \<times> int \<Rightarrow> int \<times> int \<Rightarrow> bool" where
  "matches cv seed q \<longleftrightarrow> inCanvas cv q \<and> pixelOf cv q = pixelOf cv seed"

text \<open>The pixels so far: the original raster, overwritten at the visited matching pixels.\<close>

definition invPixels ::
  "canvas \<Rightarrow> int \<times> int \<Rightarrow> (int \<Rightarrow> int \<Rightarrow> rgba) \<Rightarrow> rgba list \<Rightarrow> nat set \<Rightarrow> bool" where
  "invPixels cv seed src px visited \<longleftrightarrow>
     length px = width cv * height cv
     \<and> (\<forall>q. inCanvas cv q \<longrightarrow>
           px ! idx cv q = (if idx cv q \<in> visited \<and> matches cv seed q then src (fst q) (snd q)
                            else pixels cv ! idx cv q))"

text \<open>Visited matching pixels and matching pixels on the stack belong to the region.\<close>

definition invSound :: "canvas \<Rightarrow> int \<times> int \<Rightarrow> nat set \<Rightarrow> (int \<times> int) list \<Rightarrow> bool" where
  "invSound cv seed visited stk \<longleftrightarrow>
     (\<forall>q. matches cv seed q \<and> (idx cv q \<in> visited \<or> q \<in> set stk) \<longrightarrow> q \<in> region cv seed)"

text \<open>The seed and every neighbour of a visited matching pixel are visited or on the stack.\<close>

definition invClosed :: "canvas \<Rightarrow> int \<times> int \<Rightarrow> nat set \<Rightarrow> (int \<times> int) list \<Rightarrow> bool" where
  "invClosed cv seed visited stk \<longleftrightarrow>
     (idx cv seed \<in> visited \<or> seed \<in> set stk)
     \<and> (\<forall>q q'. matches cv seed q \<and> idx cv q \<in> visited \<and> q' \<in> neighbours q \<and> inCanvas cv q'
           \<longrightarrow> idx cv q' \<in> visited \<or> q' \<in> set stk)"

lemma invPixelsD:
  "invPixels cv seed src px visited \<Longrightarrow> inCanvas cv q \<Longrightarrow>
   px ! idx cv q = (if idx cv q \<in> visited \<and> matches cv seed q then src (fst q) (snd q)
                    else pixels cv ! idx cv q)"
  unfolding invPixels_def by blast

lemma invPixels_length: "invPixels cv seed src px visited \<Longrightarrow> length px = width cv * height cv"
  unfolding invPixels_def by blast

lemma invSoundD:
  "invSound cv seed visited stk \<Longrightarrow> matches cv seed q \<Longrightarrow> idx cv q \<in> visited \<or> q \<in> set stk
   \<Longrightarrow> q \<in> region cv seed"
  unfolding invSound_def by blast

lemma invClosedD:
  "invClosed cv seed visited stk \<Longrightarrow> matches cv seed q \<Longrightarrow> idx cv q \<in> visited
   \<Longrightarrow> q' \<in> neighbours q \<Longrightarrow> inCanvas cv q' \<Longrightarrow> idx cv q' \<in> visited \<or> q' \<in> set stk"
  unfolding invClosed_def by blast

lemma invClosed_seed:
  "invClosed cv seed visited stk \<Longrightarrow> idx cv seed \<in> visited \<or> seed \<in> set stk"
  unfolding invClosed_def by blast

lemma matches_idx_eq:
  "matches cv seed q \<Longrightarrow> inCanvas cv q' \<Longrightarrow> idx cv q = idx cv q' \<Longrightarrow> q = q'"
  unfolding matches_def using idx_inj by blast

lemma invSound_pop: "invSound cv seed visited (q # stk) \<Longrightarrow> invSound cv seed visited stk"
  by (auto simp add: invSound_def)

lemma invClosed_pop_outside:
  "invClosed cv seed visited (q # stk) \<Longrightarrow> \<not> inCanvas cv q \<Longrightarrow> inCanvas cv seed
   \<Longrightarrow> invClosed cv seed visited stk"
  unfolding invClosed_def by (metis set_ConsD)

lemma invClosed_pop_visited:
  "invClosed cv seed visited (q # stk) \<Longrightarrow> idx cv q \<in> visited
   \<Longrightarrow> invClosed cv seed visited stk"
  unfolding invClosed_def by (metis set_ConsD)

lemma invClosed_mark:
  "invClosed cv seed visited (q # stk) \<Longrightarrow> \<not> matches cv seed q \<Longrightarrow> inCanvas cv q
   \<Longrightarrow> invClosed cv seed (insert (idx cv q) visited) stk"
  unfolding invClosed_def
  by (metis idx_inj insert_iff matches_def set_ConsD)

lemma invSound_mark:
  "invSound cv seed visited (q # stk) \<Longrightarrow> inCanvas cv q
   \<Longrightarrow> invSound cv seed (insert (idx cv q) visited) stk"
  unfolding invSound_def
  by (metis idx_inj insert_iff list.set_intros(1) list.set_intros(2) matches_def)

lemma invPixels_mark:
  "invPixels cv seed src px visited \<Longrightarrow> \<not> matches cv seed q \<Longrightarrow> inCanvas cv q
   \<Longrightarrow> invPixels cv seed src px (insert (idx cv q) visited)"
  unfolding invPixels_def
  by (metis idx_inj insert_iff matches_def)


lemma invPixels_fill:
  assumes "invPixels cv seed src px visited" "matches cv seed q"
  shows "invPixels cv seed src (px[idx cv q := src (fst q) (snd q)]) (insert (idx cv q) visited)"
proof -
  from assms(1) have len: "length px = width cv * height cv" by (rule invPixels_length)
  from assms have q: "inCanvas cv q" by (simp add: matches_def)
  have "(px[idx cv q := src (fst q) (snd q)]) ! idx cv q' =
          (if idx cv q' \<in> insert (idx cv q) visited \<and> matches cv seed q'
           then src (fst q') (snd q') else pixels cv ! idx cv q')"
    if q': "inCanvas cv q'" for q'
  proof (cases "q' = q")
    case True
    then show ?thesis using assms(2) idx_less [OF q] len by simp
  next
    case False
    then have "idx cv q' \<noteq> idx cv q" using idx_inj [OF q' q] by blast
    then show ?thesis using invPixelsD [OF assms(1) q'] by simp
  qed
  with len show ?thesis by (simp add: invPixels_def)
qed

lemma invSound_fill:
  assumes "invSound cv seed visited ((x, y) # stk)" "matches cv seed (x, y)"
  shows "invSound cv seed (insert (idx cv (x, y)) visited)
           ((x, y - 1) # (x, y + 1) # (x - 1, y) # (x + 1, y) # stk)"
proof -
  have r: "(x, y) \<in> region cv seed"
    using invSoundD [OF assms(1) assms(2)] by simp
  have n: "q' \<in> region cv seed"
    if "q' \<in> {(x, y - 1), (x, y + 1), (x - 1, y), (x + 1, y)}" "matches cv seed q'" for q'
  proof (rule region.step [OF r])
    show "q' \<in> neighbours (x, y)" using that(1) by (auto simp add: neighbours_def)
    show "inCanvas cv q'" using that(2) by (simp add: matches_def)
    show "pixelOf cv q' = pixelOf cv seed" using that(2) by (simp add: matches_def)
  qed
  have "q \<in> region cv seed"
    if m: "matches cv seed q"
      and c: "idx cv q \<in> insert (idx cv (x, y)) visited
              \<or> q \<in> set ((x, y - 1) # (x, y + 1) # (x - 1, y) # (x + 1, y) # stk)" for q
  proof -
    from c consider "idx cv q = idx cv (x, y)" | "idx cv q \<in> visited"
      | "q \<in> {(x, y - 1), (x, y + 1), (x - 1, y), (x + 1, y)}" | "q \<in> set stk"
      by auto
    then show ?thesis
    proof cases
      case 1
      have "inCanvas cv (x, y)" using assms(2) by (simp add: matches_def)
      then have "q = (x, y)" using matches_idx_eq [OF m _ 1] by blast
      with r show ?thesis by simp
    next
      case 2
      then show ?thesis using invSoundD [OF assms(1) m] by blast
    next
      case 3
      then show ?thesis using m by (rule n)
    next
      case 4
      then show ?thesis using invSoundD [OF assms(1) m] by simp
    qed
  qed
  then show ?thesis unfolding invSound_def by blast
qed

lemma invClosed_fill:
  assumes "invClosed cv seed visited ((x, y) # stk)" "inCanvas cv (x, y)"
  shows "invClosed cv seed (insert (idx cv (x, y)) visited)
           ((x, y - 1) # (x, y + 1) # (x - 1, y) # (x + 1, y) # stk)"
proof -
  have a: "idx cv seed \<in> insert (idx cv (x, y)) visited
           \<or> seed \<in> set ((x, y - 1) # (x, y + 1) # (x - 1, y) # (x + 1, y) # stk)"
    using invClosed_seed [OF assms(1)] by auto
  have b: "idx cv q' \<in> insert (idx cv (x, y)) visited
           \<or> q' \<in> set ((x, y - 1) # (x, y + 1) # (x - 1, y) # (x + 1, y) # stk)"
    if m: "matches cv seed q" and v: "idx cv q \<in> insert (idx cv (x, y)) visited"
      and nb: "q' \<in> neighbours q" and i: "inCanvas cv q'" for q q'
  proof (cases "idx cv q = idx cv (x, y)")
    case True
    then have "q = (x, y)" using matches_idx_eq [OF m assms(2)] by blast
    with nb show ?thesis by (auto simp add: neighbours_def)
  next
    case False
    with v have "idx cv q \<in> visited" by simp
    then have "idx cv q' \<in> visited \<or> q' \<in> set ((x, y) # stk)"
      using invClosedD [OF assms(1) m _ nb i] by blast
    then show ?thesis by auto
  qed
  from a b show ?thesis unfolding invClosed_def by blast
qed

lemma region_matches: "q \<in> region cv seed \<Longrightarrow> matches cv seed q"
  by (induction rule: region.induct) (simp_all add: matches_def)

lemma closed_covers_region:
  assumes "invClosed cv seed visited []" "q \<in> region cv seed"
  shows "idx cv q \<in> visited"
  using assms(2)
proof (induction rule: region.induct)
  case seed
  show ?case using invClosed_seed [OF assms(1)] by simp
next
  case (step q q')
  have "matches cv seed q" using step.hyps(1) by (rule region_matches)
  then show ?case
    using invClosedD [OF assms(1) _ step.IH step.hyps(2) step.hyps(3)] by simp
qed

lemma finished:
  assumes "invPixels cv seed src px visited" "invSound cv seed visited []"
    "invClosed cv seed visited []" "inCanvas cv q"
  shows "px ! idx cv q = (if q \<in> region cv seed then src (fst q) (snd q)
                          else pixels cv ! idx cv q)"
proof -
  have "(idx cv q \<in> visited \<and> matches cv seed q) = (q \<in> region cv seed)"
    using invSoundD [OF assms(2), of q] closed_covers_region [OF assms(3), of q]
      region_matches [of q cv seed]
    by auto
  then show ?thesis using invPixelsD [OF assms(1) assms(4)] by simp
qed

lemma fillLoop_region:
  assumes "wellFormed cv" and "inCanvas cv seed"
    and "invPixels cv seed src px visited" and "invSound cv seed visited stk"
    and "invClosed cv seed visited stk"
  shows "length (fillLoop (width cv) (height cv) (pixelOf cv seed) src px visited stk)
           = width cv * height cv
         \<and> (\<forall>q. inCanvas cv q \<longrightarrow>
               fillLoop (width cv) (height cv) (pixelOf cv seed) src px visited stk ! idx cv q
                 = (if q \<in> region cv seed then src (fst q) (snd q) else pixels cv ! idx cv q))"
  using assms(3-5)
proof (induction "width cv" "height cv" "pixelOf cv seed" src px visited stk
       rule: fillLoop.induct)
  case (1 src px visited)
  then show ?case
    using finished [of cv seed src px visited] invPixels_length [of cv seed src px visited]
    by simp
next
  case (2 src px visited x y stk)
  have ic: "inCanvas cv (x, y) = (\<not> (x < 0 \<or> int (width cv) \<le> x \<or> y < 0 \<or> int (height cv) \<le> y))"
    by (auto simp add: inCanvas_def)
  have ix: "nat (y * int (width cv) + x) = idx cv (x, y)" by (simp add: idx_def)
  show ?case
  proof (cases "inCanvas cv (x, y)")
    case False
    have "invClosed cv seed visited stk"
      using "2.prems"(3) False assms(2) by (rule invClosed_pop_outside)
    moreover have "invSound cv seed visited stk"
      using "2.prems"(2) by (rule invSound_pop)
    ultimately show ?thesis
      using "2.hyps"(1) "2.prems"(1) False ic by simp
  next
    case inside: True
    show ?thesis
    proof (cases "idx cv (x, y) \<in> visited")
      case True
      have "invClosed cv seed visited stk"
        using "2.prems"(3) True by (rule invClosed_pop_visited)
      moreover have "invSound cv seed visited stk"
        using "2.prems"(2) by (rule invSound_pop)
      ultimately show ?thesis
        using "2.hyps"(2) "2.prems"(1) True inside ic ix by simp
    next
      case unvisited: False
      have cur: "pixelAt px (y * int (width cv) + x) = pixelOf cv (x, y)"
      proof -
        from "2.prems"(1) have len: "length px = width cv * height cv"
          by (rule invPixels_length)
        have "pixelAt px (y * int (width cv) + x) = Some (px ! idx cv (x, y))"
          using pixelAt_in [OF len inside] by simp
        also have "px ! idx cv (x, y) = pixels cv ! idx cv (x, y)"
          using invPixelsD [OF "2.prems"(1) inside] unvisited by simp
        finally show ?thesis using pixelOf_in [OF assms(1) inside] by simp
      qed
      show ?thesis
      proof (cases "matches cv seed (x, y)")
        case True
        then have c: "pixelAt px (y * int (width cv) + x) = pixelOf cv seed"
          using cur by (simp add: matches_def)
        have i1: "invPixels cv seed src (px[idx cv (x, y) := src x y])
                    (insert (idx cv (x, y)) visited)"
          using invPixels_fill [OF "2.prems"(1) True] by simp
        have i2: "invSound cv seed (insert (idx cv (x, y)) visited)
                    ((x, y - 1) # (x, y + 1) # (x - 1, y) # (x + 1, y) # stk)"
          using "2.prems"(2) True by (rule invSound_fill)
        have i3: "invClosed cv seed (insert (idx cv (x, y)) visited)
                    ((x, y - 1) # (x, y + 1) # (x - 1, y) # (x + 1, y) # stk)"
          using "2.prems"(3) inside by (rule invClosed_fill)
        show ?thesis
          using "2.hyps"(3) i1 i2 i3 unvisited inside ic ix c by simp
      next
        case False
        then have c: "pixelAt px (y * int (width cv) + x) \<noteq> pixelOf cv seed"
          using cur inside by (simp add: matches_def)
        have i1: "invPixels cv seed src px (insert (idx cv (x, y)) visited)"
          using "2.prems"(1) False inside by (rule invPixels_mark)
        have i2: "invSound cv seed (insert (idx cv (x, y)) visited) stk"
          using "2.prems"(2) inside by (rule invSound_mark)
        have i3: "invClosed cv seed (insert (idx cv (x, y)) visited) stk"
          using "2.prems"(3) False inside by (rule invClosed_mark)
        show ?thesis
          using "2.hyps"(4) i1 i2 i3 unvisited inside ic ix c by simp
      qed
    qed
  qed
qed


definition seedOf :: "point \<Rightarrow> int \<times> int" where
  "seedOf p = (\<lfloor>fst p\<rfloor>, \<lfloor>snd p\<rfloor>)"

definition seedMatchesFill :: "app \<Rightarrow> point \<Rightarrow> rgb \<Rightarrow> bool" where
  "seedMatchesFill s p fillColor =
     sameAsFill (pixelOf (surface s) (seedOf p)) fillColor (fillAlpha (opacity s))"

definition patternOf :: "browser \<Rightarrow> app \<Rightarrow> rgb \<Rightarrow> canvas option" where
  "patternOf B s fillColor =
     (if fillPattern s \<noteq> SolidFill
      then Some (createPatternCanvas B (fillPattern s) fillColor (opacity s)) else None)"

definition paintedValue :: "browser \<Rightarrow> app \<Rightarrow> rgb \<Rightarrow> int \<times> int \<Rightarrow> rgba" where
  "paintedValue B s fillColor q =
     fillValue (patternOf B s fillColor) fillColor (fillAlpha (opacity s)) (fst q) (snd q)"

lemma floodFill_unfold:
  "floodFill B p fillColor s =
     (if seedMatchesFill s p fillColor then s
      else s\<lparr>surface := (surface s)\<lparr>pixels :=
             fillLoop (width (surface s)) (height (surface s)) (pixelOf (surface s) (seedOf p))
               (\<lambda>x y. paintedValue B s fillColor (x, y)) (pixels (surface s)) {} [seedOf p]\<rparr>\<rparr>)"
  by (simp add: floodFill_def seedMatchesFill_def pixelOf_def seedOf_def paintedValue_def
      patternOf_def Let_def)

lemma floodFill_same_color: "seedMatchesFill s p fillColor \<Longrightarrow> floodFill B p fillColor s = s"
  by (simp add: floodFill_unfold)

lemma invPixels_init: "wellFormed cv \<Longrightarrow> invPixels cv seed src (pixels cv) {}"
  by (simp add: invPixels_def wellFormed_def)

lemma invSound_init: "invSound cv seed {} [seed]"
  unfolding invSound_def using region.seed [of cv seed] by (auto simp add: matches_def)

lemma invClosed_init: "invClosed cv seed {} [seed]"
  by (simp add: invClosed_def)

lemma region_inCanvas: "q \<in> region cv seed \<Longrightarrow> inCanvas cv q"
  using region_matches [of q cv seed] by (simp add: matches_def)

lemma floodFill_pixels:
  assumes wf: "wellFormed (surface s)" and inb: "inCanvas (surface s) (seedOf p)"
    and diff: "\<not> seedMatchesFill s p fillColor"
  shows "width (surface (floodFill B p fillColor s)) = width (surface s)"
    and "height (surface (floodFill B p fillColor s)) = height (surface s)"
    and "wellFormed (surface (floodFill B p fillColor s))"
    and "inCanvas (surface s) q \<Longrightarrow>
         pixelOf (surface (floodFill B p fillColor s)) q =
           (if q \<in> region (surface s) (seedOf p) then Some (paintedValue B s fillColor q)
            else pixelOf (surface s) q)"
proof -
  let ?cv = "surface s"
  let ?src = "\<lambda>x y. paintedValue B s fillColor (x, y)"
  let ?res = "fillLoop (width ?cv) (height ?cv) (pixelOf ?cv (seedOf p)) ?src (pixels ?cv) {}
                [seedOf p]"
  have sf: "surface (floodFill B p fillColor s) = ?cv\<lparr>pixels := ?res\<rparr>"
    using diff by (simp add: floodFill_unfold)
  have loop: "length ?res = width ?cv * height ?cv
      \<and> (\<forall>q. inCanvas ?cv q \<longrightarrow>
            ?res ! idx ?cv q = (if q \<in> region ?cv (seedOf p) then ?src (fst q) (snd q)
                                else pixels ?cv ! idx ?cv q))"
    using wf inb invPixels_init [OF wf] invSound_init invClosed_init
    by (rule fillLoop_region)
  show "width (surface (floodFill B p fillColor s)) = width ?cv" by (simp add: sf)
  show "height (surface (floodFill B p fillColor s)) = height ?cv" by (simp add: sf)
  show wf': "wellFormed (surface (floodFill B p fillColor s))"
    using loop by (simp add: sf wellFormed_def)
  show "pixelOf (surface (floodFill B p fillColor s)) q =
           (if q \<in> region ?cv (seedOf p) then Some (paintedValue B s fillColor q)
            else pixelOf ?cv q)" if q: "inCanvas ?cv q"
  proof -
    have q': "inCanvas (?cv\<lparr>pixels := ?res\<rparr>) q" using q by (simp add: inCanvas_def)
    have "pixelOf (?cv\<lparr>pixels := ?res\<rparr>) q = Some (?res ! idx ?cv q)"
      using pixelOf_in [OF _ q'] wf' by (simp add: sf idx_def)
    moreover have "?res ! idx ?cv q = (if q \<in> region ?cv (seedOf p) then ?src (fst q) (snd q)
                                else pixels ?cv ! idx ?cv q)"
      using loop q by blast
    ultimately show ?thesis
      using pixelOf_in [OF wf q] by (simp add: sf)
  qed
qed

lemma fillAlpha_range: "0 \<le> op \<Longrightarrow> op \<le> 1 \<Longrightarrow> 0 \<le> fillAlpha op \<and> fillAlpha op \<le> 255"
proof -
  assume a: "0 \<le> op" "op \<le> 1"
  then have "0 \<le> op * 255" "op * 255 \<le> 255" by simp_all
  then show ?thesis unfolding fillAlpha_def by (simp add: floor_le_iff le_floor_iff)
qed

lemma uint_clampByte: "0 \<le> v \<Longrightarrow> v \<le> 255 \<Longrightarrow> uint (clampByte v) = v"
  by (simp add: clampByte_def uint_word_of_int_eq take_bit_int_eq_self)

lemma solid_value_differs:
  assumes "fillPattern s = SolidFill" "0 \<le> opacity s" "opacity s \<le> 1"
    and "\<not> sameAsFill (Some c) fillColor (fillAlpha (opacity s))"
  shows "paintedValue B s fillColor q \<noteq> c"
proof
  assume e: "paintedValue B s fillColor q = c"
  obtain r g b a where c: "c = (r, g, b, a)" by (cases c) auto
  obtain fr fg fb where f: "fillColor = (fr, fg, fb)" by (cases fillColor) auto
  from e assms(1) have "(fr, fg, fb, clampByte (fillAlpha (opacity s))) = (r, g, b, a)"
    by (simp add: paintedValue_def patternOf_def fillValue_def c f)
  then have "(r, g, b) = fillColor" "uint a = fillAlpha (opacity s)"
    using fillAlpha_range [OF assms(2,3)] by (auto simp add: f uint_clampByte)
  with assms(4) show False by (simp add: sameAsFill_def c)
qed


lemma changed_subset:
  assumes wf: "wellFormed (surface s)" and inb: "inCanvas (surface s) (seedOf p)"
    and diff: "\<not> seedMatchesFill s p fillColor"
  shows "changed (surface s) (surface (floodFill B p fillColor s)) \<subseteq> region (surface s) (seedOf p)"
proof
  fix q
  assume "q \<in> changed (surface s) (surface (floodFill B p fillColor s))"
  then have q: "inCanvas (surface s) q"
    and ne: "pixelOf (surface (floodFill B p fillColor s)) q \<noteq> pixelOf (surface s) q"
    by (simp_all add: changed_def)
  show "q \<in> region (surface s) (seedOf p)"
  proof (rule ccontr)
    assume "q \<notin> region (surface s) (seedOf p)"
    then have "pixelOf (surface (floodFill B p fillColor s)) q = pixelOf (surface s) q"
      using floodFill_pixels(4) [OF wf inb diff q] by simp
    with ne show False by simp
  qed
qed

lemma changed_solid:
  assumes wf: "wellFormed (surface s)" and inb: "inCanvas (surface s) (seedOf p)"
    and diff: "\<not> seedMatchesFill s p fillColor"
    and solid: "fillPattern s = SolidFill" and op: "0 \<le> opacity s" "opacity s \<le> 1"
  shows "changed (surface s) (surface (floodFill B p fillColor s)) = region (surface s) (seedOf p)"
proof
  show "changed (surface s) (surface (floodFill B p fillColor s)) \<subseteq> region (surface s) (seedOf p)"
    using wf inb diff by (rule changed_subset)
  show "region (surface s) (seedOf p) \<subseteq> changed (surface s) (surface (floodFill B p fillColor s))"
  proof
    fix q
    assume r: "q \<in> region (surface s) (seedOf p)"
    then have q: "inCanvas (surface s) q" by (rule region_inCanvas)
    obtain c where c: "pixelOf (surface s) (seedOf p) = Some c"
      using pixelOf_in [OF wf inb] by simp
    have m: "pixelOf (surface s) q = Some c"
      using region_matches [OF r] c by (simp add: matches_def)
    have "\<not> sameAsFill (Some c) fillColor (fillAlpha (opacity s))"
      using diff c by (simp add: seedMatchesFill_def)
    then have "paintedValue B s fillColor q \<noteq> c"
      using solid op by (intro solid_value_differs)
    moreover have "pixelOf (surface (floodFill B p fillColor s)) q = Some (paintedValue B s fillColor q)"
      using floodFill_pixels(4) [OF wf inb diff q] r by simp
    ultimately show "q \<in> changed (surface s) (surface (floodFill B p fillColor s))"
      using q m by (simp add: changed_def)
  qed
qed

text \<open>
  A canvas still in its background colour, about to be filled with that same colour at
  full opacity, and a three-pixel canvas with two background pixels and a cream one.
\<close>

definition backgroundFillApp :: app where
  "backgroundFillApp =
     (initialApp 800 600)\<lparr>fillMode := True, selectedColor := (10, 10, 10), opacity := 1\<rparr>"

lemma backgroundFill_seed:
  "seedMatchesFill backgroundFillApp (400, 300) (selectedColor backgroundFillApp)"
  by (simp add: seedMatchesFill_def pixelOf_def seedOf_def backgroundFillApp_def initialApp_def
      blank_def pixelAt_def sameAsFill_def fillAlpha_def background_def)

definition stripeApp :: app where
  "stripeApp =
     (initialApp 3 1)\<lparr>surface := \<lparr>width = 3, height = 1,
                                    pixels = [background, background, (244, 232, 212, 255)]\<rparr>,
                       fillMode := True\<rparr>"

lemma stripe_filled:
  "pixels (surface (floodFill idleBrowser (0.5, 0.5) (107, 181, 199) stripeApp))
     = [(107, 181, 199, 178), (107, 181, 199, 178), (244, 232, 212, 255)]"
  by (simp add: floodFill_def stripeApp_def initialApp_def Let_def pixelAt_def sameAsFill_def
      fillAlpha_def background_def fillValue_def clampByte_def)

text \<open>
  Claim C1, as the specification states it, fails: when the seed pixel already has the
  fill colour and alpha, \<^verbatim>\<open>floodFill\<close> returns before its loop and no pixel changes,
  although the seed's region is not empty.
\<close>

theorem fill_same_color_changes_nothing:
  "changed (surface backgroundFillApp)
     (surface (floodFill idleBrowser (400, 300) (selectedColor backgroundFillApp)
        backgroundFillApp))
   \<noteq> region (surface backgroundFillApp) (seedOf (400, 300))"
proof -
  have f: "floodFill idleBrowser (400, 300) (selectedColor backgroundFillApp) backgroundFillApp
             = backgroundFillApp"
    using backgroundFill_seed by (rule floodFill_same_color)
  have "inCanvas (surface backgroundFillApp) (seedOf (400, 300))"
    by (simp add: inCanvas_def seedOf_def backgroundFillApp_def initialApp_def blank_def)
  then have "seedOf (400, 300) \<in> region (surface backgroundFillApp) (seedOf (400, 300))"
    by (rule region.seed)
  moreover have "changed (surface backgroundFillApp) (surface backgroundFillApp) = {}"
    by (simp add: changed_def)
  ultimately show ?thesis by (auto simp add: f)
qed

text \<open>
  Claim C1, amended. For every well-formed canvas and every seed point inside it whose pixel
  differs from the fill colour and alpha, \<^verbatim>\<open>floodFill\<close> overwrites every pixel of the
  seed's region with the fill value (the flat colour, or for a pattern fill the pattern
  tile's pixel at \<open>(x mod width, y mod height)\<close>) and leaves every pixel outside the region
  unchanged, as it leaves the canvas size. With a solid fill and an opacity between 0 and
  1 the pixels that change are exactly those of the region. When the seed pixel already
  equals the fill colour and alpha, no pixel changes.
\<close>

theorem floodFill_fills_region:
  assumes "wellFormed (surface s)" and "inCanvas (surface s) (seedOf p)"
  shows "(seedMatchesFill s p fillColor \<longrightarrow> floodFill B p fillColor s = s)
         \<and> (\<not> seedMatchesFill s p fillColor \<longrightarrow>
              (\<forall>q. inCanvas (surface s) q \<longrightarrow>
                 pixelOf (surface (floodFill B p fillColor s)) q =
                   (if q \<in> region (surface s) (seedOf p)
                    then Some (paintedValue B s fillColor q)
                    else pixelOf (surface s) q))
              \<and> width (surface (floodFill B p fillColor s)) = width (surface s)
              \<and> height (surface (floodFill B p fillColor s)) = height (surface s)
              \<and> changed (surface s) (surface (floodFill B p fillColor s))
                  \<subseteq> region (surface s) (seedOf p)
              \<and> (fillPattern s = SolidFill \<and> 0 \<le> opacity s \<and> opacity s \<le> 1 \<longrightarrow>
                   changed (surface s) (surface (floodFill B p fillColor s))
                     = region (surface s) (seedOf p)))"
proof (intro conjI impI)
  assume "seedMatchesFill s p fillColor"
  then show "floodFill B p fillColor s = s" by (rule floodFill_same_color)
next
  assume d: "\<not> seedMatchesFill s p fillColor"
  show "\<forall>q. inCanvas (surface s) q \<longrightarrow>
          pixelOf (surface (floodFill B p fillColor s)) q =
            (if q \<in> region (surface s) (seedOf p) then Some (paintedValue B s fillColor q)
             else pixelOf (surface s) q)"
    using floodFill_pixels(4) [OF assms d] by blast
next
  assume d: "\<not> seedMatchesFill s p fillColor"
  show "width (surface (floodFill B p fillColor s)) = width (surface s)"
    using assms d by (rule floodFill_pixels(1))
next
  assume d: "\<not> seedMatchesFill s p fillColor"
  show "height (surface (floodFill B p fillColor s)) = height (surface s)"
    using assms d by (rule floodFill_pixels(2))
next
  assume d: "\<not> seedMatchesFill s p fillColor"
  show "changed (surface s) (surface (floodFill B p fillColor s))
          \<subseteq> region (surface s) (seedOf p)"
    using assms d by (rule changed_subset)
next
  assume d: "\<not> seedMatchesFill s p fillColor"
    and "fillPattern s = SolidFill \<and> 0 \<le> opacity s \<and> opacity s \<le> 1"
  then show "changed (surface s) (surface (floodFill B p fillColor s))
               = region (surface s) (seedOf p)"
    using changed_solid [OF assms d] by blast
qed

theorem floodFill_fills_region_witness:
  "wellFormed (surface stripeApp) \<and> inCanvas (surface stripeApp) (seedOf (0.5, 0.5))
   \<and> \<not> seedMatchesFill stripeApp (0.5, 0.5) (107, 181, 199)
   \<and> fillPattern stripeApp = SolidFill \<and> 0 \<le> opacity stripeApp \<and> opacity stripeApp \<le> 1
   \<and> changed (surface stripeApp)
         (surface (floodFill idleBrowser (0.5, 0.5) (107, 181, 199) stripeApp))
       = region (surface stripeApp) (seedOf (0.5, 0.5))
   \<and> pixels (surface (floodFill idleBrowser (0.5, 0.5) (107, 181, 199) stripeApp))
       = [(107, 181, 199, 178), (107, 181, 199, 178), (244, 232, 212, 255)]
   \<and> wellFormed (surface backgroundFillApp)
   \<and> inCanvas (surface backgroundFillApp) (seedOf (400, 300))
   \<and> seedMatchesFill backgroundFillApp (400, 300) (selectedColor backgroundFillApp)
   \<and> floodFill idleBrowser (400, 300) (selectedColor backgroundFillApp) backgroundFillApp
       = backgroundFillApp"
proof -
  have g1: "wellFormed (surface backgroundFillApp)"
    by (simp add: wellFormed_def backgroundFillApp_def initialApp_def blank_def)
  have g2: "inCanvas (surface backgroundFillApp) (seedOf (400, 300))"
    by (simp add: inCanvas_def seedOf_def backgroundFillApp_def initialApp_def blank_def)
  have g3: "floodFill idleBrowser (400, 300) (selectedColor backgroundFillApp) backgroundFillApp
              = backgroundFillApp"
    using floodFill_fills_region [OF g1 g2, of "selectedColor backgroundFillApp" idleBrowser]
      backgroundFill_seed
    by blast
  have h1: "wellFormed (surface stripeApp)"
    by (simp add: wellFormed_def stripeApp_def)
  have h2: "inCanvas (surface stripeApp) (seedOf (0.5, 0.5))"
    by (simp add: inCanvas_def seedOf_def stripeApp_def)
  have h3: "\<not> seedMatchesFill stripeApp (0.5, 0.5) (107, 181, 199)"
    by (simp add: seedMatchesFill_def pixelOf_def seedOf_def stripeApp_def initialApp_def
        pixelAt_def sameAsFill_def background_def)
  have h4: "fillPattern stripeApp = SolidFill \<and> 0 \<le> opacity stripeApp \<and> opacity stripeApp \<le> 1"
    by (simp add: stripeApp_def initialApp_def)
  from h1 h2 h3 h4 floodFill_fills_region [OF h1 h2, of "(107, 181, 199)" idleBrowser]
    stripe_filled g1 g2 g3 backgroundFill_seed
  show ?thesis by blast
qed

section \<open>Filling with the colour already there\<close>

lemma undoHistory_floodFill: "undoHistory (floodFill B p fillColor s) = undoHistory s"
  by (simp add: floodFill_unfold)

lemma undoHistory_fills:
  "undoHistory (applySymmetry s p (\<lambda>sp. floodFill B sp fillColor)) = undoHistory s"
  by (cases "symmetryMode s") (simp_all add: applySymmetry_def undoHistory_floodFill)

lemma last_saveToHistory: "last (undoHistory (saveToHistory s)) = surface (saveToHistory s)"
proof -
  have "last (tl (undoHistory s @ [surface s])) = surface s" if "undoHistory s \<noteq> []"
    using that by (cases "undoHistory s") simp_all
  moreover have "undoHistory s \<noteq> []" if "19 < length (undoHistory s)"
    using that by auto
  ultimately show ?thesis
    by (simp add: saveToHistory_def Let_def maxUndoSteps_def)
qed

lemma startDrawing_fill:
  "fillMode s \<Longrightarrow> \<not> isDraggingPanel s \<Longrightarrow>
   startDrawing B e s
     = saveToHistory (applySymmetry s (eventPoint B e) (\<lambda>sp. floodFill B sp (selectedColor s)))"
  by (simp add: startDrawing_def Let_def)

lemma floodFill_keeps_style:
  "opacity (floodFill B p fillColor s) = opacity s
   \<and> fillPattern (floodFill B p fillColor s) = fillPattern s"
  by (simp add: floodFill_unfold)

lemma solid_value_same:
  assumes "fillPattern s = SolidFill" "0 \<le> opacity s" "opacity s \<le> 1"
  shows "sameAsFill (Some (paintedValue B s fillColor q)) fillColor (fillAlpha (opacity s))"
proof -
  obtain fr fg fb where f: "fillColor = (fr, fg, fb)" by (cases fillColor) auto
  show ?thesis
    using assms fillAlpha_range [OF assms(2,3)]
    by (simp add: paintedValue_def patternOf_def fillValue_def sameAsFill_def f uint_clampByte)
qed

text \<open>A solid fill repeated at the same seed changes nothing the second time.\<close>

lemma floodFill_idempotent:
  assumes wf: "wellFormed (surface s)" and inb: "inCanvas (surface s) (seedOf p)"
    and solid: "fillPattern s = SolidFill" and op: "0 \<le> opacity s" "opacity s \<le> 1"
  shows "floodFill B p fillColor (floodFill B p fillColor s) = floodFill B p fillColor s"
proof (cases "seedMatchesFill s p fillColor")
  case True
  then show ?thesis by (simp add: floodFill_same_color)
next
  case False
  let ?t = "floodFill B p fillColor s"
  have r: "seedOf p \<in> region (surface s) (seedOf p)" using inb by (rule region.seed)
  have "pixelOf (surface ?t) (seedOf p) = Some (paintedValue B s fillColor (seedOf p))"
    using floodFill_pixels(4) [OF wf inb False inb] r by simp
  then have "seedMatchesFill ?t p fillColor"
    using solid_value_same [OF solid op] floodFill_keeps_style [of B p fillColor s]
    by (simp add: seedMatchesFill_def)
  then show ?thesis by (rule floodFill_same_color)
qed

text \<open>
  Claim C2, as the specification states it, fails in its second half: a fill click on a
  pixel that already has the fill colour and alpha changes no pixel, but
  \<^verbatim>\<open>startDrawing\<close> calls \<^verbatim>\<open>saveToHistory\<close> all the same, and the history grows from
  one snapshot to two.
\<close>

theorem fill_same_color_adds_snapshot:
  "seedMatchesFill backgroundFillApp (eventPoint idleBrowser \<lparr>clientX = 400, clientY = 300\<rparr>)
       (selectedColor backgroundFillApp)
   \<and> length (undoHistory backgroundFillApp) = 1
   \<and> length (undoHistory (startDrawing idleBrowser \<lparr>clientX = 400, clientY = 300\<rparr>
                              backgroundFillApp)) = 2"
proof -
  have e: "eventPoint idleBrowser \<lparr>clientX = 400, clientY = 300\<rparr> = (400, 300)"
    by (simp add: eventPoint_def idleBrowser_def)
  have h1: "fillMode backgroundFillApp" by (simp add: backgroundFillApp_def)
  have h2: "\<not> isDraggingPanel backgroundFillApp"
    by (simp add: backgroundFillApp_def initialApp_def)
  have h3: "seedMatchesFill backgroundFillApp
              (eventPoint idleBrowser \<lparr>clientX = 400, clientY = 300\<rparr>)
              (selectedColor backgroundFillApp)"
    by (simp only: e backgroundFill_seed)
  have l: "length (undoHistory backgroundFillApp) = 1"
    by (simp add: backgroundFillApp_def initialApp_def)
  have "length (undoHistory (startDrawing idleBrowser \<lparr>clientX = 400, clientY = 300\<rparr>
                              backgroundFillApp)) = 2"
    by (simp add: startDrawing_fill [OF h1 h2] length_saveToHistory undoHistory_fills l
        maxUndoSteps_def)
  with h3 l show ?thesis by blast
qed

text \<open>
  Claim C2, amended. When the seed pixel already equals the fill colour and alpha,
  \<^verbatim>\<open>floodFill\<close> returns at once and changes no pixel. The fill click still appends one
  snapshot of the canvas to the history (the oldest is dropped beyond 20); with symmetry
  off the raster after the click is the raster before it.
\<close>

theorem fill_same_color_keeps_pixels:
  assumes "fillMode s" and "\<not> isDraggingPanel s"
    and "seedMatchesFill s (eventPoint B e) (selectedColor s)"
  shows "floodFill B (eventPoint B e) (selectedColor s) s = s
         \<and> length (undoHistory (startDrawing B e s))
             = (if 20 \<le> length (undoHistory s) then length (undoHistory s)
                else Suc (length (undoHistory s)))
         \<and> last (undoHistory (startDrawing B e s)) = surface (startDrawing B e s)
         \<and> (symmetryMode s = NoSymmetry \<longrightarrow>
               surface (startDrawing B e s) = surface s
               \<and> startDrawing B e s = saveToHistory s)"
proof -
  have a: "floodFill B (eventPoint B e) (selectedColor s) s = s"
    using assms(3) by (rule floodFill_same_color)
  have b: "length (undoHistory (startDrawing B e s))
             = (if 20 \<le> length (undoHistory s) then length (undoHistory s)
                else Suc (length (undoHistory s)))"
    by (simp add: startDrawing_fill [OF assms(1,2)] length_saveToHistory undoHistory_fills
        maxUndoSteps_def)
  have c: "last (undoHistory (startDrawing B e s)) = surface (startDrawing B e s)"
    by (simp only: startDrawing_fill [OF assms(1,2)] last_saveToHistory)
  have d: "symmetryMode s = NoSymmetry \<longrightarrow>
             surface (startDrawing B e s) = surface s \<and> startDrawing B e s = saveToHistory s"
    by (simp add: startDrawing_fill [OF assms(1,2)] applySymmetry_def a saveToHistory_def Let_def)
  from a b c d show ?thesis by blast
qed

theorem fill_same_color_keeps_pixels_witness:
  "fillMode backgroundFillApp \<and> \<not> isDraggingPanel backgroundFillApp
   \<and> seedMatchesFill backgroundFillApp (eventPoint idleBrowser \<lparr>clientX = 400, clientY = 300\<rparr>)
       (selectedColor backgroundFillApp)
   \<and> symmetryMode backgroundFillApp = NoSymmetry
   \<and> floodFill idleBrowser (eventPoint idleBrowser \<lparr>clientX = 400, clientY = 300\<rparr>)
         (selectedColor backgroundFillApp) backgroundFillApp = backgroundFillApp
   \<and> surface (startDrawing idleBrowser \<lparr>clientX = 400, clientY = 300\<rparr> backgroundFillApp)
       = surface backgroundFillApp
   \<and> startDrawing idleBrowser \<lparr>clientX = 400, clientY = 300\<rparr> backgroundFillApp
       = saveToHistory backgroundFillApp"
proof -
  have e: "eventPoint idleBrowser \<lparr>clientX = 400, clientY = 300\<rparr> = (400, 300)"
    by (simp add: eventPoint_def idleBrowser_def)
  have h1: "fillMode backgroundFillApp" by (simp add: backgroundFillApp_def)
  have h2: "\<not> isDraggingPanel backgroundFillApp"
    by (simp add: backgroundFillApp_def initialApp_def)
  have h3: "seedMatchesFill backgroundFillApp
              (eventPoint idleBrowser \<lparr>clientX = 400, clientY = 300\<rparr>)
              (selectedColor backgroundFillApp)"
    by (simp only: e backgroundFill_seed)
  have h4: "symmetryMode backgroundFillApp = NoSymmetry"
    by (simp add: backgroundFillApp_def initialApp_def)
  from h1 h2 h3 h4 fill_same_color_keeps_pixels [OF h1 h2 h3]
  show ?thesis by blast
qed

end
